theory Spec2Isabelle
  imports Main "HOL-Library.Sublist" "HOL-Library.Log_Nat"
begin

section \<open>Python values\<close>

text \<open>
  The program (\<^verbatim>\<open>library_manager.py\<close>) keeps its catalog as a Python list of dicts and
  moves it to and from a JSON file. The values that can occur are those JSON has, floats
  apart: \<^verbatim>\<open>None\<close>, booleans, unbounded integers, text, lists, and dicts with text keys.
  A dict is an association list in insertion order (Python keeps that order, and
  \<^verbatim>\<open>json.dump\<close> writes it); its keys are distinct.

  Text is a list of characters with code points below 256, each an Isabelle \<open>char\<close>;
  text of other scripts is treated where it matters, in the section on lower case.
  Floats are outside the model: the one float the program computes itself, the percentage
  of the statistics, is treated exactly in its own section.
\<close>

datatype pyval =
    PNone
  | PBool bool
  | PInt int
  | PStr string
  | PList "pyval list"
  | PDict "(string \<times> pyval) list"

text \<open>
  Python's \<^verbatim>\<open>==\<close>. A boolean is an integer (\<^verbatim>\<open>True == 1\<close>); lists compare element by
  element; two dicts are equal when they have as many keys and every key of the first
  has an equal value in the second, whatever the order of insertion.
\<close>

fun py_eq :: "pyval \<Rightarrow> pyval \<Rightarrow> bool" where
  "py_eq PNone PNone = True"
| "py_eq (PBool a) (PBool b) = (a = b)"
| "py_eq (PBool a) (PInt j) = ((if a then 1 else 0) = j)"
| "py_eq (PInt i) (PBool b) = (i = (if b then 1 else 0))"
| "py_eq (PInt i) (PInt j) = (i = j)"
| "py_eq (PStr s) (PStr t) = (s = t)"
| "py_eq (PList xs) (PList ys) = list_all2 py_eq xs ys"
| "py_eq (PDict d) (PDict e) =
     (length d = length e \<and>
      list_all (\<lambda>(k, v). case map_of e k of None \<Rightarrow> False | Some w \<Rightarrow> py_eq v w) d)"
| "py_eq _ _ = False"

text \<open>
  \<^verbatim>\<open>list.remove\<close> and \<^verbatim>\<open>in\<close> compare an element with \<^verbatim>\<open>is\<close> first and
  with \<^verbatim>\<open>==\<close> after: an object matches itself. The model has values and no object
  identities; equal values stand for the same object here, which changes nothing for
  dicts with distinct keys, where a value always \<^verbatim>\<open>==\<close> itself.
\<close>

definition same :: "pyval \<Rightarrow> pyval \<Rightarrow> bool" where
  "same x y = (x = y \<or> py_eq x y)"

text \<open>\<^verbatim>\<open>x in xs\<close> for a list or a range \<open>xs\<close>.\<close>

definition py_in :: "pyval \<Rightarrow> pyval list \<Rightarrow> bool" where
  "py_in x xs = list_ex (\<lambda>y. same y x) xs"

text \<open>Truth value of an object, as \<^verbatim>\<open>if x:\<close> tests it.\<close>

fun truthy :: "pyval \<Rightarrow> bool" where
  "truthy PNone = False"
| "truthy (PBool b) = b"
| "truthy (PInt i) = (i \<noteq> 0)"
| "truthy (PStr s) = (s \<noteq> [])"
| "truthy (PList xs) = (xs \<noteq> [])"
| "truthy (PDict d) = (d \<noteq> [])"

section \<open>Text operations\<close>

text \<open>
  \<^verbatim>\<open>str.strip()\<close> removes leading and trailing white space. Below 256 the white space
  characters of Python are 9 to 13, 28 to 32, 133 and 160.
\<close>

definition is_space :: "char \<Rightarrow> bool" where
  "is_space c =
     (let n = (of_char c :: nat)
      in (9 \<le> n \<and> n \<le> 13) \<or> (28 \<le> n \<and> n \<le> 32) \<or> n = 133 \<or> n = 160)"

definition strip :: "string \<Rightarrow> string" where
  "strip s = rev (dropWhile is_space (rev (dropWhile is_space s)))"

text \<open>
  \<^verbatim>\<open>str.lower()\<close>. Below 256 the upper case letters are A to Z (65 to 90) and the
  Latin-1 capitals 192 to 222 without the multiplication sign 215; each lies 32 below its
  lower case letter.
\<close>

definition lower_char :: "char \<Rightarrow> char" where
  "lower_char c =
     (let n = (of_char c :: nat)
      in if (65 \<le> n \<and> n \<le> 90) \<or> (192 \<le> n \<and> n \<le> 222 \<and> n \<noteq> 215)
         then char_of (n + 32) else c)"

definition lower :: "string \<Rightarrow> string" where
  "lower s = map lower_char s"

text \<open>
  \<^verbatim>\<open>int(s)\<close> for text \<open>s\<close> without surrounding white space: an optional sign, then
  decimal digits, where single underscores may stand between digits. \<open>None\<close> is the
  \<^verbatim>\<open>ValueError\<close>. (The interpreter's limit on the number of digits is not modelled.)
\<close>

definition digit_of :: "char \<Rightarrow> nat option" where
  "digit_of c =
     (let n = (of_char c :: nat) in if 48 \<le> n \<and> n \<le> 57 then Some (n - 48) else None)"

fun int_digits :: "int \<Rightarrow> string \<Rightarrow> int option" where
  "int_digits a [] = Some a"
| "int_digits a (c # cs) =
     (case digit_of c of
        Some d \<Rightarrow> int_digits (10 * a + int d) cs
      | None \<Rightarrow>
          if c = CHR ''_'' then
            (case cs of
               [] \<Rightarrow> None
             | c' # cs' \<Rightarrow>
                 (case digit_of c' of
                    Some d \<Rightarrow> int_digits (10 * a + int d) cs'
                  | None \<Rightarrow> None))
          else None)"

definition py_int :: "string \<Rightarrow> int option" where
  "py_int s =
     (let (neg, ds) =
            (case s of
               [] \<Rightarrow> (False, s)
             | c # cs \<Rightarrow>
                 if c = CHR ''-'' then (True, cs)
                 else if c = CHR ''+'' then (False, cs)
                 else (False, s))
      in case ds of
           [] \<Rightarrow> None
         | c # cs \<Rightarrow>
             (case digit_of c of
                None \<Rightarrow> None
              | Some d \<Rightarrow> map_option (\<lambda>v. if neg then - v else v) (int_digits (int d) cs)))"

section \<open>Exceptions and the console\<close>

text \<open>
  A printed line is kept as the pieces of its format string: literal text \<open>S\<close>, the
  \<^verbatim>\<open>str()\<close> of a value \<open>V\<close>, the \<^verbatim>\<open>repr()\<close> of a value \<open>R\<close>, the message
  of an exception \<open>E\<close>. An exception is a value; \<open>Unmodelled\<close> is not one of Python's:
  it marks an input the model does not cover (a float in the store).
\<close>

datatype frag = S string | V pyval | R pyval | E exc
  and exc =
    EOFError
  | ValueError "frag list"
  | KeyError string
  | TypeError
  | AttributeError
  | IndexError
  | OSError
  | JSONDecodeError
  | RecursionError
  | Unmodelled

datatype out = Prompt string | Print "frag list"

record console =
  stdin :: "string list"
  stdout :: "out list"

text \<open>
  A statement sequence that may raise: it takes the console, and returns the exception
  or the result together with the console as it is then.
\<close>

type_synonym 'a prog = "console \<Rightarrow> (exc + 'a) \<times> console"

definition return :: "'a \<Rightarrow> 'a prog" where
  "return x w = (Inr x, w)"

definition raise :: "exc \<Rightarrow> 'a prog" where
  "raise e w = (Inl e, w)"

definition seq :: "'a prog \<Rightarrow> ('a \<Rightarrow> 'b prog) \<Rightarrow> 'b prog" where
  "seq m f w = (case m w of (Inl e, w') \<Rightarrow> (Inl e, w') | (Inr x, w') \<Rightarrow> f x w')"

definition lift :: "exc + 'a \<Rightarrow> 'a prog" where
  "lift r w = (r, w)"

definition print :: "frag list \<Rightarrow> unit prog" where
  "print t w = (Inr (), w\<lparr>stdout := stdout w @ [Print t]\<rparr>)"

text \<open>
  \<^verbatim>\<open>input(prompt)\<close> writes the prompt and reads one line, without its line end; at the
  end of the input it raises \<^verbatim>\<open>EOFError\<close>.
\<close>

definition input :: "string \<Rightarrow> string prog" where
  "input p w =
     (case stdin w of
        [] \<Rightarrow> (Inl EOFError, w\<lparr>stdout := stdout w @ [Prompt p]\<rparr>)
      | l # ls \<Rightarrow> (Inr l, w\<lparr>stdin := ls, stdout := stdout w @ [Prompt p]\<rparr>))"

section \<open>The input validator\<close>

text \<open>
  \<^verbatim>\<open>get_valid_input(prompt, input_type=str, valid_options=None)\<close>. The callers pass
  \<^verbatim>\<open>str\<close>, \<^verbatim>\<open>int\<close> or \<^verbatim>\<open>bool\<close> as the type, and nothing, a list or a range as
  the options; a range is the list of its integers.
\<close>

datatype input_type = T_str | T_int | T_bool

text \<open>
  The body of the \<^verbatim>\<open>try\<close>, from the stripped line on: the value returned, or the
  \<^verbatim>\<open>ValueError\<close> raised.
\<close>

definition convert :: "input_type \<Rightarrow> string \<Rightarrow> exc + pyval" where
  "convert input_type user_input =
     (case input_type of
        T_int \<Rightarrow>
          (case py_int user_input of
             None \<Rightarrow>
               Inl (ValueError [S ''invalid literal for int() with base 10: '',
                                R (PStr user_input)])
           | Some i \<Rightarrow> Inr (PInt i))
      | T_bool \<Rightarrow>
          (let u = lower user_input
           in if \<not> List.member [''yes'', ''no'', ''y'', ''n''] u
              then Inl (ValueError [S (''Please enter '' @ [CHR 0x27] @ ''yes'' @ [CHR 0x27]
                                       @ '' or '' @ [CHR 0x27] @ ''no'' @ [CHR 0x27])])
              else Inr (PBool (List.member [''yes'', ''y''] u)))
      | T_str \<Rightarrow> Inr (PStr user_input))"

fun join :: "frag list \<Rightarrow> frag list list \<Rightarrow> frag list" where
  "join sep [] = []"
| "join sep [x] = x"
| "join sep (x # y # ys) = x @ sep @ join sep (y # ys)"

definition validated :: "input_type \<Rightarrow> pyval list option \<Rightarrow> string \<Rightarrow> exc + pyval" where
  "validated input_type valid_options user_input =
     (if user_input = [] then Inl (ValueError [S ''Input cannot be empty''])
      else
        case convert input_type user_input of
          Inl e \<Rightarrow> Inl e
        | Inr v \<Rightarrow>
            (case valid_options of
               None \<Rightarrow> Inr v
             | Some opts \<Rightarrow>
                 if opts \<noteq> [] \<and> \<not> py_in v opts
                 then Inl (ValueError
                        (S ''Please enter one of: '' # join [S '', ''] (map (\<lambda>x. [V x]) opts)))
                 else Inr v))"

function get_valid_input :: "string \<Rightarrow> input_type \<Rightarrow> pyval list option \<Rightarrow> pyval prog" where
  "get_valid_input prompt input_type valid_options w =
     (case input prompt w of
        (Inl e, w') \<Rightarrow> (Inl e, w')
      | (Inr line, w') \<Rightarrow>
          (case validated input_type valid_options (strip line) of
             Inr v \<Rightarrow> (Inr v, w')
           | Inl e \<Rightarrow>
               get_valid_input prompt input_type valid_options
                 (w'\<lparr>stdout := stdout w' @
                    [Print [S ''Invalid input: '', E e, S ''. Please try again.'']]\<rparr>)))"
  by pat_completeness auto
termination
  by (relation "measure (\<lambda>(p, t, opts, w). length (stdin w))")
     (auto simp: input_def split: list.splits)

section \<open>Expressions on records\<close>

definition and_then :: "exc + 'a \<Rightarrow> ('a \<Rightarrow> exc + 'b) \<Rightarrow> exc + 'b" where
  "and_then r f = (case r of Inl e \<Rightarrow> Inl e | Inr x \<Rightarrow> f x)"

text \<open>
  \<^verbatim>\<open>book['title']\<close>: a dict without the key raises \<^verbatim>\<open>KeyError\<close>; a value that is no
  dict cannot be subscripted with text and raises \<^verbatim>\<open>TypeError\<close>.
\<close>

definition subscript :: "pyval \<Rightarrow> string \<Rightarrow> exc + pyval" where
  "subscript v k =
     (case v of
        PDict d \<Rightarrow> (case map_of d k of None \<Rightarrow> Inl (KeyError k) | Some x \<Rightarrow> Inr x)
      | _ \<Rightarrow> Inl TypeError)"

text \<open>\<^verbatim>\<open>x.lower()\<close>: only text has the method.\<close>

definition str_lower :: "pyval \<Rightarrow> exc + string" where
  "str_lower v = (case v of PStr s \<Rightarrow> Inr (lower s) | _ \<Rightarrow> Inl AttributeError)"

text \<open>
  A list comprehension \<^verbatim>\<open>[x for x in xs if p(x)]\<close>: the condition is evaluated element
  by element, and the first exception ends it.
\<close>

fun filter_exc :: "('a \<Rightarrow> exc + bool) \<Rightarrow> 'a list \<Rightarrow> exc + 'a list" where
  "filter_exc p [] = Inr []"
| "filter_exc p (x # xs) =
     and_then (p x) (\<lambda>b. and_then (filter_exc p xs) (\<lambda>ys. Inr (if b then x # ys else ys)))"

definition line_of_50 :: string where
  "line_of_50 = replicate 50 (CHR ''='')"

text \<open>The three lines that head a screen: an empty line and a rule, the title, a rule.\<close>

definition heading :: "string \<Rightarrow> unit prog" where
  "heading title =
     seq (print [S (CHR 0x0A # line_of_50)]) (\<lambda>_.
     seq (print [S title]) (\<lambda>_.
     print [S line_of_50]))"

section \<open>Adding a book\<close>

definition add_book :: "pyval list \<Rightarrow> pyval list prog" where
  "add_book library =
     seq (heading ''Add a New Book'') (\<lambda>_.
     seq (get_valid_input ''Enter the book title: '' T_str None) (\<lambda>title.
     seq (get_valid_input ''Enter the author: '' T_str None) (\<lambda>author.
     seq (get_valid_input ''Enter the publication year: '' T_int None) (\<lambda>year.
     seq (get_valid_input ''Enter the genre: '' T_str None) (\<lambda>genre.
     seq (get_valid_input ''Have you read this book? (yes/no): '' T_bool None) (\<lambda>read.
     seq (print [S (CHR 0x0A # ''Book added successfully!'')]) (\<lambda>_.
     return (library @
       [PDict [(''title'', title), (''author'', author), (''year'', year),
               (''genre'', genre), (''read'', read)]]))))))))"

section \<open>Removing a book\<close>

text \<open>\<^verbatim>\<open>book['title'].lower() == title.lower()\<close>\<close>

definition title_is :: "pyval \<Rightarrow> pyval \<Rightarrow> exc + bool" where
  "title_is title book =
     and_then (subscript book ''title'') (\<lambda>t.
     and_then (str_lower t) (\<lambda>a.
     and_then (str_lower title) (\<lambda>b. Inr (a = b))))"

text \<open>
  \<^verbatim>\<open>library.remove(x)\<close> deletes the first element that is \<open>x\<close> or equals it, and
  raises \<^verbatim>\<open>ValueError\<close> when there is none.
\<close>

fun remove_first :: "pyval \<Rightarrow> pyval list \<Rightarrow> pyval list option" where
  "remove_first x [] = None"
| "remove_first x (y # ys) =
     (if same y x then Some ys else map_option ((#) y) (remove_first x ys))"

definition list_remove :: "pyval list \<Rightarrow> pyval \<Rightarrow> exc + pyval list" where
  "list_remove xs x =
     (case remove_first x xs of
        None \<Rightarrow> Inl (ValueError [S ''list.remove(x): x not in list''])
      | Some ys \<Rightarrow> Inr ys)"

text \<open>\<^verbatim>\<open>xs[i]\<close> for an integer \<open>i\<close>: a negative index counts from the end.\<close>

definition index :: "'a list \<Rightarrow> int \<Rightarrow> exc + 'a" where
  "index xs i =
     (if 0 \<le> i \<and> i < int (length xs) then Inr (xs ! nat i)
      else if i < 0 \<and> - int (length xs) \<le> i then Inr (xs ! nat (int (length xs) + i))
      else Inl IndexError)"

text \<open>The numbered lines of the matches, \<^verbatim>\<open>enumerate(found_books, 1)\<close>.\<close>

definition match_line :: "nat \<Rightarrow> pyval \<Rightarrow> exc + frag list" where
  "match_line i book =
     and_then (subscript book ''title'') (\<lambda>t.
     and_then (subscript book ''author'') (\<lambda>a.
     and_then (subscript book ''year'') (\<lambda>y.
     Inr [V (PInt (int i)), S ''. '', V t, S '' by '', V a, S '' ('', V y, S '')''])))"

fun print_lines :: "(nat \<Rightarrow> pyval \<Rightarrow> exc + frag list) \<Rightarrow> nat \<Rightarrow> pyval list \<Rightarrow> unit prog" where
  "print_lines line i [] = return ()"
| "print_lines line i (book # books) =
     seq (lift (line i book)) (\<lambda>t.
     seq (print t) (\<lambda>_.
     print_lines line (Suc i) books))"

text \<open>
  With several matches the user picks one by its number; the options are
  \<^verbatim>\<open>range(1, len(found_books)+1)\<close>.
\<close>

definition choose_book :: "pyval list \<Rightarrow> pyval prog" where
  "choose_book found_books =
     (if length found_books > 1 then
        seq (print [S (CHR 0x0A # ''Multiple books found with that title:'')]) (\<lambda>_.
        seq (print_lines match_line 1 found_books) (\<lambda>_.
        seq (get_valid_input ''Enter the number of the book to remove: '' T_int
               (Some (map PInt [1 .. int (length found_books)]))) (\<lambda>choice.
        (case choice of
           PInt c \<Rightarrow> lift (index found_books (c - 1))
         | _ \<Rightarrow> raise TypeError))))
      else lift (index found_books 0))"

definition remove_book :: "pyval list \<Rightarrow> pyval list prog" where
  "remove_book library =
     (if library = [] then
        seq (print [S (CHR 0x0A # ''Your library is empty!'')]) (\<lambda>_. return library)
      else
        seq (heading ''Remove a Book'') (\<lambda>_.
        seq (get_valid_input ''Enter the title of the book to remove: '' T_str None) (\<lambda>title.
        seq (lift (filter_exc (title_is title) library)) (\<lambda>found_books.
        if found_books = [] then
          seq (print [S (CHR 0x0A # ''No book found with title '' @ [CHR 0x27]), V title,
                      S [CHR 0x27]]) (\<lambda>_.
          return library)
        else
          seq (choose_book found_books) (\<lambda>book_to_remove.
          seq (lift (list_remove library book_to_remove)) (\<lambda>library'.
          seq (print [S (CHR 0x0A # ''Book removed successfully!'')]) (\<lambda>_.
          return library')))))))"

section \<open>Searching\<close>

text \<open>
  \<^verbatim>\<open>search_term.lower() in book[field].lower()\<close>: for text, \<^verbatim>\<open>in\<close> asks whether the
  left text occurs in the right one as a contiguous piece.
\<close>

definition field_contains :: "string \<Rightarrow> pyval \<Rightarrow> pyval \<Rightarrow> exc + bool" where
  "field_contains field search_term book =
     and_then (str_lower search_term) (\<lambda>a.
     and_then (subscript book field) (\<lambda>t.
     and_then (str_lower t) (\<lambda>b. Inr (sublist a b))))"

definition summary_line :: "nat \<Rightarrow> pyval \<Rightarrow> exc + frag list" where
  "summary_line i book =
     and_then (subscript book ''read'') (\<lambda>r.
     and_then (subscript book ''title'') (\<lambda>t.
     and_then (subscript book ''author'') (\<lambda>a.
     and_then (subscript book ''year'') (\<lambda>y.
     and_then (subscript book ''genre'') (\<lambda>g.
     Inr [V (PInt (int i)), S ''. '', V t, S '' by '', V a, S '' ('', V y, S '') - '', V g,
          S '' - '', S (if truthy r then ''Read'' else ''Unread'')])))))"

text \<open>
  \<open>search_books\<close> prints and returns nothing; the model returns the list \<^verbatim>\<open>results\<close>
  it has printed, so that statements can speak of it.
\<close>

definition search_menu :: "unit prog" where
  "search_menu =
     seq (heading ''Search for a Book'') (\<lambda>_.
     seq (print [S ''Search by:'']) (\<lambda>_.
     seq (print [S ''1. Title'']) (\<lambda>_.
     print [S ''2. Author''])))"

definition search_books :: "pyval list \<Rightarrow> pyval list prog" where
  "search_books library =
     (if library = [] then
        seq (print [S (CHR 0x0A # ''Your library is empty!'')]) (\<lambda>_. return [])
      else
        seq search_menu (\<lambda>_.
        seq (get_valid_input ''Enter your choice: '' T_int (Some [PInt 1, PInt 2])) (\<lambda>choice.
        seq (get_valid_input
               (if py_eq choice (PInt 1) then ''Enter the search term: ''
                else ''Enter the author'' @ [CHR 0x27] @ ''s name: '') T_str None) (\<lambda>search_term.
        seq (lift (if py_eq choice (PInt 1)
                   then filter_exc (field_contains ''title'' search_term) library
                   else filter_exc (field_contains ''author'' search_term) library)) (\<lambda>results.
        if results = [] then
          seq (print [S (CHR 0x0A # ''No matching books found.'')]) (\<lambda>_. return results)
        else
          seq (print [S (CHR 0x0A # ''Found ''), V (PInt (int (length results))),
                      S '' matching book(s):'']) (\<lambda>_.
          seq (print_lines summary_line 1 results) (\<lambda>_.
          return results)))))))"

section \<open>Lower case outside Latin-1\<close>

text \<open>
  The console delivers text of any script, and \<^verbatim>\<open>str.lower()\<close> is not a map of single
  characters there: a capital sigma (code point 931) becomes the final small sigma (962)
  where it ends a word, and the small sigma (963) elsewhere. It ends a word when the
  nearest character before it that is not case-ignorable is a cased letter, and the
  nearest character after it that is not case-ignorable, if there is one, is not.

  This section gives \<^verbatim>\<open>str.lower()\<close> on text as a list of code points, for the code points
  below 256 and those of the Greek and Coptic block (880 to 1023); text with any other
  code point has the result \<open>None\<close>. On the text of the rest of this theory it is \<open>lower\<close>
  (lemma \<open>py_lower_chars\<close>).
\<close>

definition covered :: "nat \<Rightarrow> bool" where
  "covered c = (c < 256 \<or> (880 \<le> c \<and> c < 1024))"

text \<open>
  The case-ignorable characters among the covered ones: apostrophe, full stop, colon,
  circumflex, grave, diaeresis, soft hyphen, macron, acute, middle dot, cedilla, and the
  Greek numeral signs, iota subscript, tonos, dialytika tonos and ano teleia.
\<close>

definition case_ignorable :: "nat \<Rightarrow> bool" where
  "case_ignorable c =
     List.member [39, 46, 58, 94, 96, 168, 173, 175, 180, 183, 184, 884, 885, 890, 900, 901, 903] c"

text \<open>The cased letters among the covered characters, as ranges of code points.\<close>

definition cased :: "nat \<Rightarrow> bool" where
  "cased c =
     list_ex (\<lambda>(lo, hi). lo \<le> c \<and> c \<le> hi)
       [(65, 90), (97, 122), (170, 170), (181, 181), (186, 186), (192, 214), (216, 246),
        (248, 255), (880, 883), (886, 887), (890, 893), (895, 895), (902, 902), (904, 906),
        (908, 908), (910, 929), (931, 1013), (1015, 1023)]"

text \<open>The lower case of one covered character other than the capital sigma.\<close>

definition lower_point :: "nat \<Rightarrow> nat" where
  "lower_point c =
     (if (65 \<le> c \<and> c \<le> 90) \<or> (192 \<le> c \<and> c \<le> 222 \<and> c \<noteq> 215) then c + 32
      else if 913 \<le> c \<and> c \<le> 939 \<and> c \<noteq> 930 then c + 32
      else if c = 902 then 940
      else if 904 \<le> c \<and> c \<le> 906 then c + 37
      else if c = 908 then 972
      else if c = 910 \<or> c = 911 then c + 63
      else if c = 880 \<or> c = 882 \<or> c = 886 then c + 1
      else if c = 895 then 1011
      else if c = 975 then 983
      else if 984 \<le> c \<and> c \<le> 1006 \<and> even c then c + 1
      else if c = 1012 then 952
      else if c = 1015 then 1016
      else if c = 1017 then 1010
      else if c = 1018 then 1019
      else if 1021 \<le> c \<and> c \<le> 1023 then c - 130
      else c)"

text \<open>
  Whether a capital sigma ends a word: \<open>left\<close> holds the characters before it, the
  nearest first, and \<open>right\<close> those after it.
\<close>

definition final_sigma :: "nat list \<Rightarrow> nat list \<Rightarrow> bool" where
  "final_sigma left right =
     ((case dropWhile case_ignorable left of [] \<Rightarrow> False | c # _ \<Rightarrow> cased c) \<and>
      (case dropWhile case_ignorable right of [] \<Rightarrow> True | c # _ \<Rightarrow> \<not> cased c))"

fun lower_from :: "nat list \<Rightarrow> nat list \<Rightarrow> nat list" where
  "lower_from left [] = []"
| "lower_from left (c # cs) =
     (if c = 931 then (if final_sigma left cs then 962 else 963) else lower_point c)
     # lower_from (c # left) cs"

definition py_lower :: "nat list \<Rightarrow> nat list option" where
  "py_lower s = (if list_all covered s then Some (lower_from [] s) else None)"

text \<open>\<^verbatim>\<open>a.lower() in b.lower()\<close>, the test of \<open>search_books\<close>, on such text.\<close>

definition lowered_in :: "nat list \<Rightarrow> nat list \<Rightarrow> bool option" where
  "lowered_in a b =
     (case (py_lower a, py_lower b) of
        (Some x, Some y) \<Rightarrow> Some (sublist x y)
      | _ \<Rightarrow> None)"

definition code_points :: "string \<Rightarrow> nat list" where
  "code_points s = map of_char s"

text \<open>
  Text compared without regard to case: Python's own notion is \<^verbatim>\<open>str.casefold()\<close>, which
  removes every case distinction where \<^verbatim>\<open>lower()\<close> keeps some. On text below 256 it is
  the lower case of each character, except that the sharp s (223) becomes \<^verbatim>\<open>ss\<close> and the
  micro sign (181) the Greek small mu (956).
\<close>

definition casefold :: "string \<Rightarrow> nat list" where
  "casefold s =
     concat (map (\<lambda>c. let n = (of_char c :: nat)
                       in if n = 223 then [115, 115]
                          else if n = 181 then [956]
                          else if (65 \<le> n \<and> n \<le> 90) \<or> (192 \<le> n \<and> n \<le> 222 \<and> n \<noteq> 215)
                          then [n + 32] else [n]) s)"

section \<open>Listing\<close>

definition display_all_books :: "pyval list \<Rightarrow> unit prog" where
  "display_all_books library =
     (if library = [] then print [S (CHR 0x0A # ''Your library is empty!'')]
      else
        seq (heading ''Your Library'') (\<lambda>_.
        print_lines summary_line 1 library))"

section \<open>Statistics\<close>

subsection \<open>The percentage, in binary64\<close>

text \<open>
  \<^verbatim>\<open>(read_books / total_books) * 100\<close> is computed in IEEE 754 binary64: the quotient of
  the two integers is rounded to the nearest float (ties to the even significand), and so
  is its product with 100. \<^verbatim>\<open>f"{x:.1f}"\<close> writes the float rounded to one decimal, a
  tie again to the even digit. The floats that occur lie between 0 and 100 and are given
  here by their exact values, as rationals.
\<close>

definition round_half_even :: "rat \<Rightarrow> int" where
  "round_half_even x =
     (let n = \<lfloor>x\<rfloor>; r = x - of_int n
      in if r < 1 / 2 then n else if 1 / 2 < r then n + 1 else if even n then n else n + 1)"

text \<open>The exponent \<open>e\<close> with \<open>2 ^ e \<le> x < 2 ^ (e + 1)\<close>, for a positive \<open>x\<close>.\<close>

definition binade :: "rat \<Rightarrow> int" where
  "binade x =
     (let (p, q) = quotient_of x; d = bitlen p - bitlen q
      in if 2 powi d \<le> x then d else d - 1)"

text \<open>
  The float nearest to a rational \<open>x \<ge> 0\<close> below the overflow threshold: 53 significant
  bits, and no exponent below that of the subnormal numbers.
\<close>

definition to_binary64 :: "rat \<Rightarrow> rat" where
  "to_binary64 x =
     (if x \<le> 0 then 0
      else let e = max (binade x) (- 1022); ulp = 2 powi (e - 52)
           in of_int (round_half_even (x / ulp)) * ulp)"

definition true_div :: "nat \<Rightarrow> nat \<Rightarrow> rat" where
  "true_div a b = to_binary64 (of_nat a / of_nat b)"

definition float_mul :: "rat \<Rightarrow> rat \<Rightarrow> rat" where
  "float_mul x y = to_binary64 (x * y)"

fun decimal :: "nat \<Rightarrow> string" where
  "decimal n =
     (if n < 10 then [char_of (48 + n)] else decimal (n div 10) @ [char_of (48 + n mod 10)])"

declare decimal.simps [simp del]

definition format_1f :: "rat \<Rightarrow> string" where
  "format_1f x =
     (let n = nat (round_half_even (x * 10)) in decimal (n div 10) @ ''.'' @ decimal (n mod 10))"

subsection \<open>The operation\<close>

text \<open>\<^verbatim>\<open>sum(1 for book in library if book['read'])\<close>\<close>

definition read_count :: "pyval list \<Rightarrow> exc + nat" where
  "read_count library =
     and_then (filter_exc (\<lambda>book. and_then (subscript book ''read'') (\<lambda>r. Inr (truthy r))) library)
       (\<lambda>books. Inr (length books))"

text \<open>
  The dicts \<^verbatim>\<open>genres\<close> and \<^verbatim>\<open>authors\<close> map a key to its count, in the order the
  keys were first stored. A key must be hashable (lists and dicts are not), and two keys
  are the same key when they are equal. \<open>bump\<close> is
  \<^verbatim>\<open>d[k] = d.get(k, 0) + 1\<close>.
\<close>

definition hashable :: "pyval \<Rightarrow> bool" where
  "hashable v = (case v of PList _ \<Rightarrow> False | PDict _ \<Rightarrow> False | _ \<Rightarrow> True)"

fun bump :: "pyval \<Rightarrow> (pyval \<times> nat) list \<Rightarrow> (pyval \<times> nat) list" where
  "bump k [] = [(k, 1)]"
| "bump k ((k', n) # d) = (if py_eq k' k then (k', n + 1) # d else (k', n) # bump k d)"

definition count_key :: "string \<Rightarrow> pyval \<Rightarrow> (pyval \<times> nat) list \<Rightarrow> exc + (pyval \<times> nat) list" where
  "count_key field book d =
     and_then (subscript book field) (\<lambda>k. if hashable k then Inr (bump k d) else Inl TypeError)"

text \<open>The loop over the library, with both dicts as its state.\<close>

fun count_groups ::
  "pyval list \<Rightarrow> (pyval \<times> nat) list \<times> (pyval \<times> nat) list \<Rightarrow>
   exc + (pyval \<times> nat) list \<times> (pyval \<times> nat) list" where
  "count_groups [] (genres, authors) = Inr (genres, authors)"
| "count_groups (book # books) (genres, authors) =
     and_then (count_key ''genre'' book genres) (\<lambda>genres'.
     and_then (count_key ''author'' book authors) (\<lambda>authors'.
     count_groups books (genres', authors')))"

fun print_counts :: "(pyval \<times> nat) list \<Rightarrow> unit prog" where
  "print_counts [] = return ()"
| "print_counts ((k, n) # d) =
     seq (print [S ''- '', V k, S '': '', V (PInt (int n))]) (\<lambda>_. print_counts d)"

definition display_statistics :: "pyval list \<Rightarrow> unit prog" where
  "display_statistics library =
     (if library = [] then print [S (CHR 0x0A # ''Your library is empty!'')]
      else
        let total_books = length library in
        seq (lift (read_count library)) (\<lambda>read_books.
        let percentage_read =
              (if total_books > 0 then float_mul (true_div read_books total_books) 100 else 0) in
        seq (heading ''Library Statistics'') (\<lambda>_.
        seq (print [S ''Total books: '', V (PInt (int total_books))]) (\<lambda>_.
        seq (print [S ''Percentage read: '', S (format_1f percentage_read), S ''%'']) (\<lambda>_.
        seq (lift (count_groups library ([], []))) (\<lambda>(genres, authors).
        seq (print [S (CHR 0x0A # ''Books by genre:'')]) (\<lambda>_.
        seq (print_counts genres) (\<lambda>_.
        seq (print [S (CHR 0x0A # ''Books by author:'')]) (\<lambda>_.
        print_counts authors)))))))))"

section \<open>Catalogs of book records\<close>

text \<open>
  A book record, as the specification describes it: a dict with the five keys
  \<^verbatim>\<open>title\<close>, \<^verbatim>\<open>author\<close>, \<^verbatim>\<open>year\<close>, \<^verbatim>\<open>genre\<close>, \<^verbatim>\<open>read\<close> and no other, holding
  text, text, an integer, text and a boolean.
\<close>

fun is_str :: "pyval \<Rightarrow> bool" where
  "is_str (PStr s) = True"
| "is_str _ = False"

fun is_int :: "pyval \<Rightarrow> bool" where
  "is_int (PInt i) = True"
| "is_int _ = False"

fun is_bool :: "pyval \<Rightarrow> bool" where
  "is_bool (PBool b) = True"
| "is_bool _ = False"

definition has_field :: "(pyval \<Rightarrow> bool) \<Rightarrow> string \<Rightarrow> pyval \<Rightarrow> bool" where
  "has_field ty k v = (case subscript v k of Inl e \<Rightarrow> False | Inr x \<Rightarrow> ty x)"

definition is_book :: "pyval \<Rightarrow> bool" where
  "is_book v =
     ((case v of PDict d \<Rightarrow> length d = 5 | _ \<Rightarrow> False) \<and>
      has_field is_str ''title'' v \<and> has_field is_str ''author'' v \<and>
      has_field is_int ''year'' v \<and> has_field is_str ''genre'' v \<and>
      has_field is_bool ''read'' v)"

text \<open>The record that \<open>add_book\<close> builds from five validated entries.\<close>

definition book :: "string \<Rightarrow> string \<Rightarrow> int \<Rightarrow> string \<Rightarrow> bool \<Rightarrow> pyval" where
  "book t a y g r =
     PDict [(''title'', PStr t), (''author'', PStr a), (''year'', PInt y),
            (''genre'', PStr g), (''read'', PBool r)]"

text \<open>The text in a field of a record, and whether its \<^verbatim>\<open>read\<close> flag counts as true.\<close>

definition text_field :: "string \<Rightarrow> pyval \<Rightarrow> string" where
  "text_field k v = (case subscript v k of Inr (PStr s) \<Rightarrow> s | _ \<Rightarrow> [])"

definition read_flag :: "pyval \<Rightarrow> bool" where
  "read_flag v = (case subscript v ''read'' of Inr r \<Rightarrow> truthy r | Inl e \<Rightarrow> False)"

text \<open>
  The operations change the list in place, each in its last statement that can raise
  (\<^verbatim>\<open>library.append\<close>, \<^verbatim>\<open>library.remove\<close>): when one raises, the list is as it was.
\<close>

definition library_after :: "pyval list \<Rightarrow> exc + pyval list \<Rightarrow> pyval list" where
  "library_after library r = (case r of Inl e \<Rightarrow> library | Inr library' \<Rightarrow> library')"

text \<open>The distinct elements of a list, each at the place of its first occurrence.\<close>

fun first_occurrences :: "'a list \<Rightarrow> 'a list" where
  "first_occurrences [] = []"
| "first_occurrences (x # xs) = x # removeAll x (first_occurrences xs)"

text \<open>
  What the statistics are to report for a list of texts (the genres, or the authors, of
  the records in catalog order): one group for each distinct text, compared as it stands,
  in the order of first occurrence, with the number of its occurrences.
\<close>

definition group_counts :: "string list \<Rightarrow> (pyval \<times> nat) list" where
  "group_counts xs = map (\<lambda>s. (PStr s, count_list xs s)) (first_occurrences xs)"

text \<open>The line printed for one group, and the percentage as the operation computes it.\<close>

definition count_line :: "pyval \<times> nat \<Rightarrow> out" where
  "count_line kn = Print [S ''- '', V (fst kn), S '': '', V (PInt (int (snd kn)))]"

definition percentage_read :: "pyval list \<Rightarrow> rat" where
  "percentage_read library =
     float_mul (true_div (length (filter read_flag library)) (length library)) 100"

section \<open>The JSON document\<close>

text \<open>
  \<^verbatim>\<open>json.dump(library, f, indent=4)\<close> writes the catalog as the standard encoder does
  with its defaults: text in double quotes with every character outside 32 to 126, the
  quote and the backslash escaped (\<^verbatim>\<open>ensure_ascii\<close>); integers in decimal;
  \<^verbatim>\<open>true\<close>, \<^verbatim>\<open>false\<close>, \<^verbatim>\<open>null\<close>; a list or dict that is not empty with each
  item on a line of its own, indented by four spaces for each level, items separated by a
  comma, keys from values by a colon and a space.
\<close>

definition hex_digit :: "nat \<Rightarrow> char" where
  "hex_digit n = (if n < 10 then char_of (48 + n) else char_of (87 + n))"

definition escape_char :: "char \<Rightarrow> string" where
  "escape_char c =
     (let n = (of_char c :: nat)
      in if c = CHR 0x22 then [CHR 0x5C, CHR 0x22]
         else if c = CHR 0x5C then [CHR 0x5C, CHR 0x5C]
         else if c = CHR 0x0A then [CHR 0x5C, CHR ''n'']
         else if c = CHR 0x0D then [CHR 0x5C, CHR ''r'']
         else if c = CHR 0x09 then [CHR 0x5C, CHR ''t'']
         else if c = CHR 0x08 then [CHR 0x5C, CHR ''b'']
         else if c = CHR 0x0C then [CHR 0x5C, CHR ''f'']
         else if n < 32 \<or> 126 < n
           then [CHR 0x5C, CHR ''u'', CHR ''0'', CHR ''0'', hex_digit (n div 16), hex_digit (n mod 16)]
         else [c])"

definition encode_string :: "string \<Rightarrow> string" where
  "encode_string s = CHR 0x22 # concat (map escape_char s) @ [CHR 0x22]"

definition int_repr :: "int \<Rightarrow> string" where
  "int_repr i = (if i < 0 then CHR ''-'' # decimal (nat (- i)) else decimal (nat i))"

definition newline_indent :: "nat \<Rightarrow> string" where
  "newline_indent level = CHR 0x0A # replicate (4 * level) (CHR '' '')"

fun encode :: "nat \<Rightarrow> pyval \<Rightarrow> string"
  and encode_items :: "nat \<Rightarrow> pyval list \<Rightarrow> string"
  and encode_members :: "nat \<Rightarrow> (string \<times> pyval) list \<Rightarrow> string" where
  "encode level PNone = ''null''"
| "encode level (PBool b) = (if b then ''true'' else ''false'')"
| "encode level (PInt i) = int_repr i"
| "encode level (PStr s) = encode_string s"
| "encode level (PList xs) =
     (if xs = [] then ''[]''
      else ''['' @ newline_indent (level + 1) @ encode_items (level + 1) xs @
           newline_indent level @ '']'')"
| "encode level (PDict d) =
     (if d = [] then ''{}''
      else ''{'' @ newline_indent (level + 1) @ encode_members (level + 1) d @
           newline_indent level @ ''}'')"
| "encode_items level [] = []"
| "encode_items level (x # xs) =
     encode level x @ (if xs = [] then [] else '','' @ newline_indent level @ encode_items level xs)"
| "encode_members level [] = []"
| "encode_members level ((k, v) # d) =
     encode_string k @ '': '' @ encode level v @
     (if d = [] then [] else '','' @ newline_indent level @ encode_members level d)"

definition json_dumps :: "pyval \<Rightarrow> string" where
  "json_dumps v = encode 0 v"

section \<open>Decoding\<close>

text \<open>
  \<^verbatim>\<open>json.load(f)\<close> reads the whole file and decodes it as the standard decoder does:
  white space (space, tab, line feed, carriage return) may stand around every value and
  mark; text has no raw control character and the escapes of JSON; a number is an
  optional minus sign and \<^verbatim>\<open>0\<close> or digits that do not start with \<^verbatim>\<open>0\<close>; a key that
  comes twice keeps its first place and its last value; text after the value is an error.
  A number with a fraction or an exponent, \<^verbatim>\<open>NaN\<close> and \<^verbatim>\<open>Infinity\<close> are floats, and a
  \<^verbatim>\<open>\\u\<close> escape of 256 or more is a character this model has no \<open>char\<close> for: there the
  result is \<open>Unmodelled\<close>.

  The decoder descends into nested values by recursion. The model's recursion goes down
  on a counter, which \<open>json_loads\<close> starts at twice the length of the text and one.
  (Python raises \<^verbatim>\<open>RecursionError\<close> where the nesting is deeper than the interpreter
  allows; that limit, like the limit on the digits of an integer, is not modelled.)
\<close>

definition is_ws :: "char \<Rightarrow> bool" where
  "is_ws c = (c = CHR '' '' \<or> c = CHR 0x09 \<or> c = CHR 0x0A \<or> c = CHR 0x0D)"

definition skip_ws :: "string \<Rightarrow> string" where
  "skip_ws s = dropWhile is_ws s"

definition hex_val :: "char \<Rightarrow> nat option" where
  "hex_val c =
     (let n = (of_char c :: nat)
      in if 48 \<le> n \<and> n \<le> 57 then Some (n - 48)
         else if 97 \<le> n \<and> n \<le> 102 then Some (n - 87)
         else if 65 \<le> n \<and> n \<le> 70 then Some (n - 55)
         else None)"

definition hex4 :: "char \<Rightarrow> char \<Rightarrow> char \<Rightarrow> char \<Rightarrow> nat option" where
  "hex4 a b c d =
     (case (hex_val a, hex_val b, hex_val c, hex_val d) of
        (Some x, Some y, Some z, Some u) \<Rightarrow> Some (((x * 16 + y) * 16 + z) * 16 + u)
      | _ \<Rightarrow> None)"

definition unescape :: "char \<Rightarrow> char option" where
  "unescape e =
     (if e = CHR 0x22 then Some (CHR 0x22)
      else if e = CHR 0x5C then Some (CHR 0x5C)
      else if e = CHR ''/'' then Some (CHR ''/'')
      else if e = CHR ''b'' then Some (CHR 0x08)
      else if e = CHR ''f'' then Some (CHR 0x0C)
      else if e = CHR ''n'' then Some (CHR 0x0A)
      else if e = CHR ''r'' then Some (CHR 0x0D)
      else if e = CHR ''t'' then Some (CHR 0x09)
      else None)"

fun scan_string :: "string \<Rightarrow> string \<Rightarrow> exc + string \<times> string" where
  "scan_string acc [] = Inl JSONDecodeError"
| "scan_string acc (c # cs) =
     (if c = CHR 0x22 then Inr (acc, cs)
      else if c = CHR 0x5C then
        (case cs of
           [] \<Rightarrow> Inl JSONDecodeError
         | e # cs1 \<Rightarrow>
             if e = CHR ''u'' then
               (case cs1 of
                  h1 # h2 # h3 # h4 # cs2 \<Rightarrow>
                    (case hex4 h1 h2 h3 h4 of
                       None \<Rightarrow> Inl JSONDecodeError
                     | Some n \<Rightarrow>
                         if n < 256 then scan_string (acc @ [char_of n]) cs2
                         else Inl Unmodelled)
                | _ \<Rightarrow> Inl JSONDecodeError)
             else
               (case unescape e of
                  None \<Rightarrow> Inl JSONDecodeError
                | Some x \<Rightarrow> scan_string (acc @ [x]) cs1))
      else if (of_char c :: nat) < 32 then Inl JSONDecodeError
      else scan_string (acc @ [c]) cs)"

definition is_digit :: "char \<Rightarrow> bool" where
  "is_digit c = (digit_of c \<noteq> None)"

definition digits_value :: "string \<Rightarrow> nat" where
  "digits_value ds = foldl (\<lambda>a c. 10 * a + the (digit_of c)) 0 ds"

definition starts_fraction :: "string \<Rightarrow> bool" where
  "starts_fraction s = (case s of c # d # _ \<Rightarrow> c = CHR ''.'' \<and> is_digit d | _ \<Rightarrow> False)"

definition starts_exponent :: "string \<Rightarrow> bool" where
  "starts_exponent s =
     (case s of
        c # d # r \<Rightarrow>
          (c = CHR ''e'' \<or> c = CHR ''E'') \<and>
          (is_digit d \<or>
           ((d = CHR ''+'' \<or> d = CHR ''-'') \<and> (case r of d' # _ \<Rightarrow> is_digit d' | [] \<Rightarrow> False)))
      | _ \<Rightarrow> False)"

definition scan_number :: "string \<Rightarrow> exc + pyval \<times> string" where
  "scan_number s =
     (let neg = (case s of c # _ \<Rightarrow> c = CHR ''-'' | [] \<Rightarrow> False);
          s1 = (if neg then tl s else s);
          ds = (case s1 of
                  [] \<Rightarrow> []
                | c # r \<Rightarrow> if c = CHR ''0'' then [c] else takeWhile is_digit s1);
          r = drop (length ds) s1
      in if ds = [] then
           (if prefix ''NaN'' s \<or> prefix ''Infinity'' s \<or> prefix ''-Infinity'' s
            then Inl Unmodelled else Inl JSONDecodeError)
         else if starts_fraction r \<or> starts_exponent r then Inl Unmodelled
         else Inr (PInt (if neg then - int (digits_value ds) else int (digits_value ds)), r))"

text \<open>\<^verbatim>\<open>d[k] = v\<close> on a dict: a key that is there keeps its place.\<close>

fun dict_set :: "(string \<times> pyval) list \<Rightarrow> string \<Rightarrow> pyval \<Rightarrow> (string \<times> pyval) list" where
  "dict_set [] k v = [(k, v)]"
| "dict_set ((k', v') # d) k v = (if k' = k then (k, v) # d else (k', v') # dict_set d k v)"

fun parse_value :: "nat \<Rightarrow> string \<Rightarrow> exc + pyval \<times> string"
  and parse_elements :: "nat \<Rightarrow> pyval list \<Rightarrow> string \<Rightarrow> exc + pyval \<times> string"
  and parse_members :: "nat \<Rightarrow> (string \<times> pyval) list \<Rightarrow> string \<Rightarrow> exc + pyval \<times> string" where
  "parse_value 0 s = Inl RecursionError"
| "parse_value (Suc n) s =
     (case s of
        [] \<Rightarrow> Inl JSONDecodeError
      | c # cs \<Rightarrow>
          if c = CHR 0x22 then
            (case scan_string [] cs of Inl e \<Rightarrow> Inl e | Inr (t, r) \<Rightarrow> Inr (PStr t, r))
          else if c = CHR ''{'' then
            (case skip_ws cs of
               [] \<Rightarrow> Inl JSONDecodeError
             | c1 # r \<Rightarrow>
                 if c1 = CHR ''}'' then Inr (PDict [], r)
                 else if c1 = CHR 0x22 then parse_members n [] r
                 else Inl JSONDecodeError)
          else if c = CHR ''['' then
            (case skip_ws cs of
               [] \<Rightarrow> Inl JSONDecodeError
             | c1 # r \<Rightarrow>
                 if c1 = CHR '']'' then Inr (PList [], r)
                 else parse_elements n [] (c1 # r))
          else if prefix ''null'' s then Inr (PNone, drop 4 s)
          else if prefix ''true'' s then Inr (PBool True, drop 4 s)
          else if prefix ''false'' s then Inr (PBool False, drop 5 s)
          else scan_number s)"
| "parse_elements 0 acc s = Inl RecursionError"
| "parse_elements (Suc n) acc s =
     (case parse_value n s of
        Inl e \<Rightarrow> Inl e
      | Inr (v, r) \<Rightarrow>
          (case skip_ws r of
             [] \<Rightarrow> Inl JSONDecodeError
           | c # r1 \<Rightarrow>
               if c = CHR '']'' then Inr (PList (acc @ [v]), r1)
               else if c = CHR '','' then parse_elements n (acc @ [v]) (skip_ws r1)
               else Inl JSONDecodeError))"
| "parse_members 0 acc s = Inl RecursionError"
| "parse_members (Suc n) acc s =
     (case scan_string [] s of
        Inl e \<Rightarrow> Inl e
      | Inr (k, r) \<Rightarrow>
          (case skip_ws r of
             [] \<Rightarrow> Inl JSONDecodeError
           | c # r1 \<Rightarrow>
               if c \<noteq> CHR '':'' then Inl JSONDecodeError
               else
                 (case parse_value n (skip_ws r1) of
                    Inl e \<Rightarrow> Inl e
                  | Inr (v, r2) \<Rightarrow>
                      (case skip_ws r2 of
                         [] \<Rightarrow> Inl JSONDecodeError
                       | c2 # r3 \<Rightarrow>
                           if c2 = CHR ''}'' then Inr (PDict (dict_set acc k v), r3)
                           else if c2 = CHR '','' then
                             (case skip_ws r3 of
                                [] \<Rightarrow> Inl JSONDecodeError
                              | c3 # r4 \<Rightarrow>
                                  if c3 = CHR 0x22 then parse_members n (dict_set acc k v) r4
                                  else Inl JSONDecodeError)
                           else Inl JSONDecodeError))))"

definition json_loads :: "string \<Rightarrow> exc + pyval" where
  "json_loads s =
     (case parse_value (2 * length s + 1) (skip_ws s) of
        Inl e \<Rightarrow> Inl e
      | Inr (v, r) \<Rightarrow> if skip_ws r = [] then Inr v else Inl JSONDecodeError)"

section \<open>The store\<close>

text \<open>
  The file \<^verbatim>\<open>library.json\<close>: its text when \<^verbatim>\<open>os.path.exists\<close> finds it, and the
  exceptions that opening it for reading or for writing would raise (a missing
  permission, a directory of that name), if any.
\<close>

record store =
  contents :: "string option"
  read_error :: "exc option"
  write_error :: "exc option"

text \<open>
  \<open>save_library\<close> catches every exception and prints it. The model returns the store
  after the call together with the console.
\<close>

definition save_library :: "pyval list \<Rightarrow> store \<Rightarrow> console \<Rightarrow> store \<times> console" where
  "save_library library fs w =
     (case write_error fs of
        Some e \<Rightarrow> (fs, w\<lparr>stdout := stdout w @ [Print [S ''Error saving library: '', E e]]\<rparr>)
      | None \<Rightarrow> (fs\<lparr>contents := Some (json_dumps (PList library))\<rparr>, w))"

text \<open>
  \<open>load_library\<close> returns what \<^verbatim>\<open>json.load\<close> gives, whatever its shape, and the empty
  list when there is no file or when an exception was caught and printed. The only
  \<open>Inl\<close> it can give is \<open>Unmodelled\<close>, for a store outside the model.
\<close>

definition load_library :: "store \<Rightarrow> pyval prog" where
  "load_library fs w =
     (case contents fs of
        None \<Rightarrow> (Inr (PList []), w)
      | Some text \<Rightarrow>
          (case read_error fs of
             Some e \<Rightarrow>
               (Inr (PList []),
                w\<lparr>stdout := stdout w @ [Print [S ''Error loading library: '', E e]]\<rparr>)
           | None \<Rightarrow>
               (case json_loads text of
                  Inr v \<Rightarrow> (Inr v, w)
                | Inl e \<Rightarrow>
                    if e = Unmodelled then (Inl Unmodelled, w)
                    else
                      (Inr (PList []),
                       w\<lparr>stdout := stdout w @ [Print [S ''Error loading library: '', E e]]\<rparr>))))"

section \<open>Notions for the round trip\<close>

text \<open>
  A value is well formed when the keys of each of its dicts are distinct, as they are in
  every Python dict. In the text the encoder writes, a value is followed by a comma, a
  line feed or the end; and a value starts with a character that is no white space and
  no closing bracket.
\<close>

fun wf :: "pyval \<Rightarrow> bool" where
  "wf (PList xs) = list_all wf xs"
| "wf (PDict d) = (distinct (map fst d) \<and> list_all (\<lambda>(k, v). wf v) d)"
| "wf _ = True"

definition delimited :: "string \<Rightarrow> bool" where
  "delimited rest = (case rest of [] \<Rightarrow> True | c # _ \<Rightarrow> c = CHR '','' \<or> c = CHR 0x0A)"

definition starts_value :: "string \<Rightarrow> bool" where
  "starts_value s =
     (case s of [] \<Rightarrow> False | c # _ \<Rightarrow> \<not> is_ws c \<and> c \<noteq> CHR '']'' \<and> c \<noteq> CHR ''}'')"

section \<open>Numerals with one decimal\<close>

text \<open>
  What a percentage written with one decimal is to look like, read back from the text: an
  integer part in decimal digits with no needless leading zero, a point, and one digit.
  \<open>tenths\<close> gives the number of tenths such a numeral stands for (\<^verbatim>\<open>28.7\<close> stands for
  287 tenths), and \<open>None\<close> for any other text.
\<close>

definition tenths :: "string \<Rightarrow> nat option" where
  "tenths s =
     (let ds = takeWhile is_digit s
      in case dropWhile is_digit s of
           [p, d] \<Rightarrow>
             if p = CHR ''.'' \<and> is_digit d \<and> ds \<noteq> [] \<and> (hd ds = CHR ''0'' \<longrightarrow> length ds = 1)
             then Some (10 * digits_value ds + digits_value [d]) else None
         | _ \<Rightarrow> None)"
section \<open>Properties of the validator\<close>

declare get_valid_input.simps [simp del]

lemma get_valid_input_eof:
  "stdin w = [] \<Longrightarrow>
   get_valid_input p t opts w = (Inl EOFError, w\<lparr>stdout := stdout w @ [Prompt p]\<rparr>)"
  by (simp add: get_valid_input.simps input_def)

lemma get_valid_input_valid:
  "stdin w = l # ls \<Longrightarrow> validated t opts (strip l) = Inr v \<Longrightarrow>
   get_valid_input p t opts w = (Inr v, w\<lparr>stdin := ls, stdout := stdout w @ [Prompt p]\<rparr>)"
  by (simp add: get_valid_input.simps input_def)

lemma get_valid_input_invalid:
  "stdin w = l # ls \<Longrightarrow> validated t opts (strip l) = Inl e \<Longrightarrow>
   get_valid_input p t opts w =
   get_valid_input p t opts
     (w\<lparr>stdin := ls,
        stdout := stdout w @
          [Prompt p, Print [S ''Invalid input: '', E e, S ''. Please try again.'']]\<rparr>)"
  by (simp add: get_valid_input.simps [of p t opts w] input_def)

lemma get_valid_input_returns:
  "get_valid_input p t opts w = (Inr v, w') \<Longrightarrow>
   \<exists>l. l \<in> set (stdin w) \<and> validated t opts (strip l) = Inr v \<and>
       length (stdin w') < length (stdin w)"
proof (induction p t opts w rule: get_valid_input.induct)
  case (1 p t opts w)
  show ?case
  proof (cases "stdin w")
    case Nil
    with "1.prems" show ?thesis by (simp add: get_valid_input_eof)
  next
    case (Cons l ls)
    show ?thesis
    proof (cases "validated t opts (strip l)")
      case (Inr u)
      with Cons "1.prems" show ?thesis by (auto simp: get_valid_input_valid)
    next
      case (Inl e)
      let ?w = "w\<lparr>stdin := ls, stdout := stdout w @ [Prompt p]\<rparr>"
      have i: "input p w = (Inr l, ?w)" using Cons by (simp add: input_def)
      have "get_valid_input p t opts w =
            get_valid_input p t opts
              (?w\<lparr>stdout := stdout ?w @
                 [Print [S ''Invalid input: '', E e, S ''. Please try again.'']]\<rparr>)"
        using Cons Inl by (simp add: get_valid_input_invalid)
      with "1.prems" "1.IH"[OF i[symmetric] refl Inl] Cons show ?thesis
        by auto
    qed
  qed
qed

lemma get_valid_input_raises:
  "get_valid_input p t opts w = (Inl e, w') \<Longrightarrow> e = EOFError \<and> stdin w' = []"
proof (induction p t opts w rule: get_valid_input.induct)
  case (1 p t opts w)
  show ?case
  proof (cases "stdin w")
    case Nil
    with "1.prems" show ?thesis by (auto simp add: get_valid_input_eof)
  next
    case (Cons l ls)
    show ?thesis
    proof (cases "validated t opts (strip l)")
      case (Inr u)
      with Cons "1.prems" show ?thesis by (auto simp: get_valid_input_valid)
    next
      case (Inl e')
      let ?w = "w\<lparr>stdin := ls, stdout := stdout w @ [Prompt p]\<rparr>"
      have i: "input p w = (Inr l, ?w)" using Cons by (simp add: input_def)
      have "get_valid_input p t opts w =
            get_valid_input p t opts
              (?w\<lparr>stdout := stdout ?w @
                 [Print [S ''Invalid input: '', E e', S ''. Please try again.'']]\<rparr>)"
        using Cons Inl by (simp add: get_valid_input_invalid)
      with "1.prems" "1.IH"[OF i[symmetric] refl Inl] show ?thesis
        by auto
    qed
  qed
qed

section \<open>Properties of records and comprehensions\<close>

lemma has_text_field:
  "has_field is_str k v \<Longrightarrow> subscript v k = Inr (PStr (text_field k v))"
  by (auto simp: has_field_def text_field_def split: sum.splits elim: is_str.elims)

lemma filter_exc_total:
  "list_all (\<lambda>x. p x = Inr (q x)) xs \<Longrightarrow> filter_exc p xs = Inr (filter q xs)"
  by (induction xs) (auto simp: and_then_def)

section \<open>Properties of removal\<close>

lemma remove_first_subseq:
  "remove_first x xs = Some ys \<Longrightarrow> subseq ys xs \<and> length xs = Suc (length ys)"
  by (induction xs arbitrary: ys) (auto split: if_splits)

lemma list_remove_subseq:
  "list_remove xs x = Inr ys \<Longrightarrow> subseq ys xs \<and> length xs = Suc (length ys)"
  by (auto simp: list_remove_def remove_first_subseq split: option.splits)

lemma remove_book_result:
  assumes "remove_book library w = (Inr library', w')"
  shows "library' = library \<or> (\<exists>x. list_remove library x = Inr library')"
  using assms
  by (auto simp: remove_book_def seq_def print_def lift_def return_def heading_def
           split: if_splits prod.splits sum.splits)

lemma title_is_text:
  "has_field is_str ''title'' b \<Longrightarrow>
   title_is (PStr title) b = Inr (lower (text_field ''title'' b) = lower title)"
  by (simp add: title_is_def and_then_def has_text_field str_lower_def)

lemma found_books_text:
  "list_all (has_field is_str ''title'') library \<Longrightarrow>
   filter_exc (title_is (PStr title)) library =
   Inr (filter (\<lambda>b. lower (text_field ''title'' b) = lower title) library)"
  by (rule filter_exc_total) (simp add: list_all_iff title_is_text)

text \<open>
  C5. Take a catalog that is not empty and whose records all have a text title, and let
  the validator return the title entered at the prompt. When no record's title equals it
  after lowering both, \<open>remove_book\<close> prints \<^verbatim>\<open>No book found with title '...'\<close> and
  returns with the catalog as it was: the same records in the same order.
\<close>

theorem remove_book_no_match:
  assumes "library \<noteq> []"
    and "list_all (has_field is_str ''title'') library"
    and "get_valid_input ''Enter the title of the book to remove: '' T_str None
           (snd (heading ''Remove a Book'' w)) = (Inr (PStr title), w1)"
    and "\<forall>b \<in> set library. lower (text_field ''title'' b) \<noteq> lower title"
  shows "remove_book library w =
           (Inr library,
            w1\<lparr>stdout := stdout w1 @
              [Print [S (CHR 0x0A # ''No book found with title '' @ [CHR 0x27]),
                      V (PStr title), S [CHR 0x27]]]\<rparr>)"
proof -
  have "filter (\<lambda>b. lower (text_field ''title'' b) = lower title) library = []"
    using assms(4) by (simp add: filter_empty_conv)
  then have f: "filter_exc (title_is (PStr title)) library = Inr []"
    using found_books_text[OF assms(2), of title] by simp
  obtain r w0 where h: "heading ''Remove a Book'' w = (Inr r, w0)"
    by (simp add: heading_def seq_def print_def)
  with assms(3)
  have g: "get_valid_input ''Enter the title of the book to remove: '' T_str None w0 =
           (Inr (PStr title), w1)"
    by simp
  show ?thesis using assms(1)
    by (simp add: remove_book_def seq_def h g f lift_def print_def return_def)
qed

theorem remove_book_no_match_witness:
  "remove_book [book ''Dune'' ''Frank Herbert'' 1965 ''Science Fiction'' True]
     \<lparr>stdin = [''Emma''], stdout = []\<rparr> =
   (Inr [book ''Dune'' ''Frank Herbert'' 1965 ''Science Fiction'' True],
    \<lparr>stdin = [],
     stdout = [Print [S (CHR 0x0A # line_of_50)], Print [S ''Remove a Book''],
               Print [S line_of_50],
               Prompt ''Enter the title of the book to remove: '',
               Print [S (CHR 0x0A # ''No book found with title '' @ [CHR 0x27]),
                      V (PStr ''Emma''), S [CHR 0x27]]]\<rparr>)"
proof -
  let ?lib = "[book ''Dune'' ''Frank Herbert'' 1965 ''Science Fiction'' True]"
  let ?w = "\<lparr>stdin = [''Emma''], stdout = []\<rparr>"
  let ?w1 = "\<lparr>stdin = [],
     stdout = [Print [S (CHR 0x0A # line_of_50)], Print [S ''Remove a Book''],
               Print [S line_of_50],
               Prompt ''Enter the title of the book to remove: '']\<rparr>"
  have h1: "?lib \<noteq> []" by simp
  have h2: "list_all (has_field is_str ''title'') ?lib" by code_simp
  have h3: "get_valid_input ''Enter the title of the book to remove: '' T_str None
              (snd (heading ''Remove a Book'' ?w)) = (Inr (PStr ''Emma''), ?w1)"
    by code_simp
  have h4: "\<forall>b \<in> set ?lib. lower (text_field ''title'' b) \<noteq> lower ''Emma''"
    by code_simp
  show ?thesis using remove_book_no_match[OF h1 h2 h3 h4] by simp
qed

text \<open>
  C10. Whatever the catalog and the input, the catalog after \<open>remove_book\<close> is a
  subsequence of the catalog before it (records of the old catalog, unchanged and in
  their old order), and at most one record shorter.
\<close>

theorem remove_book_subseq:
  "subseq (library_after library (fst (remove_book library w))) library \<and>
   length library \<le> Suc (length (library_after library (fst (remove_book library w))))"
proof (cases "remove_book library w")
  case (Pair r w')
  show ?thesis
  proof (cases r)
    case (Inl e)
    with Pair show ?thesis by (simp add: library_after_def)
  next
    case (Inr library')
    with Pair remove_book_result[of library w library' w'] show ?thesis
      by (auto simp: library_after_def dest: list_remove_subseq)
  qed
qed

text \<open>
  C1. A catalog holds the same record twice, with another record between them. The title
  matches both copies, and the user picks number 2, the later copy. \<open>remove_book\<close>
  deletes the first copy: the other record now stands before the remaining copy, where
  deleting the second match would have left it behind the first.
\<close>

theorem remove_book_duplicate:
  "fst (remove_book
     [book ''Dune'' ''Frank Herbert'' 1965 ''Science Fiction'' True,
      book ''Emma'' ''Jane Austen'' 1815 ''Novel'' False,
      book ''Dune'' ''Frank Herbert'' 1965 ''Science Fiction'' True]
     \<lparr>stdin = [''dune'', ''2''], stdout = []\<rparr>) =
   Inr [book ''Emma'' ''Jane Austen'' 1815 ''Novel'' False,
        book ''Dune'' ''Frank Herbert'' 1965 ''Science Fiction'' True]"
  by code_simp

section \<open>Properties of the search\<close>

lemma field_contains_text:
  "has_field is_str k b \<Longrightarrow>
   field_contains k (PStr term) b = Inr (sublist (lower term) (lower (text_field k b)))"
  by (simp add: field_contains_def and_then_def has_text_field str_lower_def)

lemma results_text:
  "list_all (has_field is_str k) library \<Longrightarrow>
   filter_exc (field_contains k (PStr term)) library =
   Inr (filter (\<lambda>b. sublist (lower term) (lower (text_field k b))) library)"
  by (rule filter_exc_total) (simp add: list_all_iff field_contains_text)

lemma print_lines_result:
  "print_lines line i books w = (r, w') \<Longrightarrow> stdin w' = stdin w"
  by (induction books arbitrary: i w)
     (auto simp: return_def seq_def lift_def print_def split: sum.splits prod.splits)

lemma search_menu_returns: "\<exists>w0. search_menu w = (Inr (), w0)"
  by (simp add: search_menu_def heading_def seq_def print_def)

lemma choice_1_or_2:
  "get_valid_input p T_int (Some [PInt 1, PInt 2]) w = (Inr v, w') \<Longrightarrow> v = PInt 1 \<or> v = PInt 2"
  by (drule get_valid_input_returns)
     (auto simp: validated_def convert_def py_in_def same_def split: if_splits sum.splits option.splits elim: py_eq.elims)

lemma is_book_fields:
  "is_book b \<Longrightarrow> has_field is_str ''title'' b \<and> has_field is_str ''author'' b"
  by (simp add: is_book_def)

lemma summary_line_book: "is_book b \<Longrightarrow> \<exists>t. summary_line i b = Inr t"
  by (auto simp: is_book_def has_field_def summary_line_def and_then_def split: sum.splits)

lemma print_summaries:
  "list_all is_book books \<Longrightarrow> \<exists>w'. print_lines summary_line i books w = (Inr (), w')"
proof (induction books arbitrary: i w)
  case Nil
  show ?case by (simp add: return_def)
next
  case (Cons b books)
  then obtain t where t: "summary_line i b = Inr t" using summary_line_book by fastforce
  from Cons show ?case
    by (simp add: seq_def lift_def t print_def)
qed

lemma search_report:
  assumes "list_all is_book results"
  shows "fst ((if results = [] then
          seq (print [S (CHR 0x0A # ''No matching books found.'')]) (\<lambda>_. return results)
        else
          seq (print [S (CHR 0x0A # ''Found ''), V (PInt (int (length results))),
                      S '' matching book(s):'']) (\<lambda>_.
          seq (print_lines summary_line 1 results) (\<lambda>_.
          return results))) w) = Inr results"
proof (cases "results = []")
  case True
  then show ?thesis by (simp add: seq_def print_def return_def)
next
  case False
  obtain w3 where "print_lines summary_line 1 results
      (snd (print [S (CHR 0x0A # ''Found ''), V (PInt (int (length results))),
                   S '' matching book(s):''] w)) = (Inr (), w3)"
    using print_summaries[OF assms] by blast
  then show ?thesis using False
    by (simp add: seq_def print_def return_def)
qed

lemma of_char_below: "(of_char c :: nat) < 256"
  using of_char_mod_256[of c, where 'a = nat] by (metis mod_less_divisor zero_less_numeral)

lemma lower_point_below:
  "n < 256 \<Longrightarrow>
   lower_point n = (if (65 \<le> n \<and> n \<le> 90) \<or> (192 \<le> n \<and> n \<le> 222 \<and> n \<noteq> 215) then n + 32 else n)"
  by (simp add: lower_point_def)

lemma not_sigma_below: "n < 256 \<Longrightarrow> n \<noteq> (931::nat)"
  by simp

lemma lower_point_char: "lower_point (of_char c) = of_char (lower_char c)"
  by (simp add: lower_point_below[OF of_char_below] lower_char_def Let_def)

lemma lower_from_chars: "lower_from left (map of_char s) = map of_char (lower s)"
proof (induction s arbitrary: left)
  case Nil
  show ?case by (simp add: lower_def)
next
  case (Cons c s)
  have "(of_char c :: nat) \<noteq> 931" by (rule not_sigma_below[OF of_char_below])
  with Cons show ?case by (simp add: lower_def lower_point_char)
qed

text \<open>On text below 256, \<^verbatim>\<open>str.lower()\<close> is the \<open>lower\<close> of the model.\<close>

lemma py_lower_chars: "py_lower (code_points s) = Some (code_points (lower s))"
proof -
  have "list_all covered (map of_char s)"
    by (simp add: list_all_iff covered_def)
  then show ?thesis by (simp add: py_lower_def code_points_def lower_from_chars)
qed

lemma sublist_code_points: "sublist (code_points a) (code_points b) = sublist a b"
proof
  assume "sublist (code_points a) (code_points b)"
  then obtain a' where a': "sublist a' b" "map of_char a = (map of_char a' :: nat list)"
    unfolding code_points_def using sublist_map_rightE by blast
  from a'(2) have "a = a'" by (simp add: inj_map_eq_map[OF inj_of_char])
  with a'(1) show "sublist a b" by simp
next
  assume "sublist a b"
  then obtain ps ss where "b = ps @ a @ ss" by (auto simp: sublist_def)
  then have "code_points b = code_points ps @ code_points a @ code_points ss"
    by (simp add: code_points_def)
  then show "sublist (code_points a) (code_points b)"
    by (simp only: sublist_appendI)
qed

text \<open>The test of the search in the model is the test of Python on that text.\<close>

lemma lowered_in_chars:
  "lowered_in (code_points a) (code_points b) = Some (sublist (lower a) (lower b))"
  by (simp add: lowered_in_def py_lower_chars sublist_code_points)

text \<open>
  C4, as amended. Take a catalog of book records that is not empty, let the validator
  return the mode \<open>c\<close> (1 for the title, 2 for the author; it returns no other) and then
  the search term, which is not empty. The list \<^verbatim>\<open>results\<close> of \<open>search_books\<close> holds
  exactly the records whose chosen field, in lower case, contains the term in lower case
  as a contiguous piece, in catalog order. The witness is the case of the specification:
  \<^verbatim>\<open>har\<close> by title finds Harry Potter and not The Hobbit.
\<close>

theorem search_books_results:
  assumes "library \<noteq> []"
    and "list_all is_book library"
    and "get_valid_input ''Enter your choice: '' T_int (Some [PInt 1, PInt 2])
           (snd (search_menu w)) = (Inr (PInt c), w1)"
    and "get_valid_input
           (if c = 1 then ''Enter the search term: ''
            else ''Enter the author'' @ [CHR 0x27] @ ''s name: '') T_str None w1 =
         (Inr (PStr term), w2)"
  shows "fst (search_books library w) =
         Inr (filter (\<lambda>b. sublist (lower term)
                (lower (text_field (if c = 1 then ''title'' else ''author'') b))) library)"
proof -
  obtain w0 where m: "search_menu w = (Inr (), w0)"
    using search_menu_returns by blast
  with assms(3)
  have g1: "get_valid_input ''Enter your choice: '' T_int (Some [PInt 1, PInt 2]) w0 =
            (Inr (PInt c), w1)"
    by simp
  have t: "list_all (has_field is_str ''title'') library"
    and a: "list_all (has_field is_str ''author'') library"
    using assms(2) by (auto simp: list_all_iff is_book_fields)
  show ?thesis
  proof (cases "c = 1")
    case True
    let ?results = "filter (\<lambda>b. sublist (lower term) (lower (text_field ''title'' b))) library"
    have bs: "list_all is_book ?results" using assms(2) by (simp add: list_all_iff)
    have g2: "get_valid_input ''Enter the search term: '' T_str None w1 = (Inr (PStr term), w2)"
      using assms(4) True by simp
    show ?thesis using assms(1) True search_report[OF bs, of w2]
      by (simp add: search_books_def seq_def m g1 g2 results_text[OF t] lift_def)
  next
    case False
    let ?results = "filter (\<lambda>b. sublist (lower term) (lower (text_field ''author'' b))) library"
    have bs: "list_all is_book ?results" using assms(2) by (simp add: list_all_iff)
    have g2: "get_valid_input (''Enter the author'' @ [CHR 0x27] @ ''s name: '') T_str None w1 =
              (Inr (PStr term), w2)"
      using assms(4) False by simp
    show ?thesis using assms(1) False search_report[OF bs, of w2]
      by (simp add: search_books_def seq_def m g1 g2[simplified] results_text[OF a] lift_def)
  qed
qed

theorem search_books_results_witness:
  "fst (search_books
     [book ''Harry Potter'' ''J. K. Rowling'' 1997 ''Fantasy'' True,
      book ''The Hobbit'' ''J. R. R. Tolkien'' 1937 ''Fantasy'' False]
     \<lparr>stdin = [''1'', ''har''], stdout = []\<rparr>) =
   Inr [book ''Harry Potter'' ''J. K. Rowling'' 1997 ''Fantasy'' True]"
proof -
  let ?lib = "[book ''Harry Potter'' ''J. K. Rowling'' 1997 ''Fantasy'' True,
      book ''The Hobbit'' ''J. R. R. Tolkien'' 1937 ''Fantasy'' False]"
  let ?w = "\<lparr>stdin = [''1'', ''har''], stdout = []\<rparr>"
  let ?out = "[Print [S (CHR 0x0A # line_of_50)], Print [S ''Search for a Book''],
               Print [S line_of_50], Print [S ''Search by:''], Print [S ''1. Title''],
               Print [S ''2. Author''], Prompt ''Enter your choice: '']"
  let ?w1 = "\<lparr>stdin = [''har''], stdout = ?out\<rparr>"
  let ?w2 = "\<lparr>stdin = [], stdout = ?out @ [Prompt ''Enter the search term: '']\<rparr>"
  have h1: "?lib \<noteq> []" by simp
  have h2: "list_all is_book ?lib" by code_simp
  have h3: "get_valid_input ''Enter your choice: '' T_int (Some [PInt 1, PInt 2])
              (snd (search_menu ?w)) = (Inr (PInt 1), ?w1)"
    by code_simp
  have h4: "get_valid_input
           (if (1::int) = 1 then ''Enter the search term: ''
            else ''Enter the author'' @ [CHR 0x27] @ ''s name: '') T_str None ?w1 =
         (Inr (PStr ''har''), ?w2)"
    by code_simp
  have "filter (\<lambda>b. sublist (lower ''har'') (lower (text_field (if (1::int) = 1 then ''title'' else ''author'') b))) ?lib
       = [book ''Harry Potter'' ''J. K. Rowling'' 1997 ''Fantasy'' True]"
    by code_simp
  then show ?thesis using search_books_results[OF h1 h2 h3 h4] by simp
qed

text \<open>
  The claim as the specification words it, containment without regard to case, fails:
  lower case does not remove every case distinction. A title that ends in a capital
  sigma contains the term that is this sigma alone, letter for letter, and the test of
  the search is false, the one sigma having become a final sigma and the other not. And
  on the catalog with the title \<^verbatim>\<open>DIE STRASSE\<close> the search for the same word written
  with the sharp s finds nothing, where the two agree once case is folded.
\<close>

theorem search_books_not_caseless:
  "sublist [931 :: nat] [913, 931] \<and>
   lowered_in [931] [913, 931] = Some False \<and>
   sublist (casefold (''stra'' @ [CHR 0xDF] @ ''e'')) (casefold ''DIE STRASSE'') \<and>
   fst (search_books [book ''DIE STRASSE'' ''Cormac McCarthy'' 2006 ''Novel'' True]
          \<lparr>stdin = [''1'', ''stra'' @ [CHR 0xDF] @ ''e''], stdout = []\<rparr>) = Inr []"
  by code_simp

section \<open>The contract of the validator\<close>

lemma validated_value:
  assumes "validated t opts s = Inr v"
  shows "s \<noteq> [] \<and> convert t s = Inr v \<and> (\<forall>os. opts = Some os \<and> os \<noteq> [] \<longrightarrow> py_in v os)"
  using assms by (auto simp: validated_def split: if_splits sum.splits option.splits)

lemma convert_value:
  assumes "convert t s = Inr v"
  shows "case t of
           T_str \<Rightarrow> v = PStr s
         | T_int \<Rightarrow> (\<exists>i. py_int s = Some i \<and> v = PInt i)
         | T_bool \<Rightarrow> List.member [''yes'', ''no'', ''y'', ''n''] (lower s) \<and>
                     v = PBool (List.member [''yes'', ''y''] (lower s))"
  using assms
  by (cases t) (auto simp: convert_def Let_def split: option.splits if_splits)

text \<open>
  C9, as the code has it. Whenever \<open>get_valid_input\<close> returns a value, a line of the
  input, stripped, was not empty and converted to that value in the requested category
  (text: the stripped line itself; integer: what \<^verbatim>\<open>int\<close> reads; yes/no: the lowered line
  is one of \<^verbatim>\<open>yes\<close>, \<^verbatim>\<open>y\<close>, \<^verbatim>\<open>no\<close>, \<^verbatim>\<open>n\<close> and the value tells whether it is
  one of the first two); and when options were supplied and are not empty, the value is
  one of them. A line that fails validation adds the prompt and one message to the output
  and the validator goes on with the next line. The only exception that leaves the
  validator is \<^verbatim>\<open>EOFError\<close>, when the input has ended.
\<close>

theorem get_valid_input_value:
  "(get_valid_input p t opts w = (Inr v, w') \<longrightarrow>
      (\<exists>l \<in> set (stdin w). strip l \<noteq> [] \<and> convert t (strip l) = Inr v \<and>
         (case t of
            T_str \<Rightarrow> v = PStr (strip l)
          | T_int \<Rightarrow> (\<exists>i. py_int (strip l) = Some i \<and> v = PInt i)
          | T_bool \<Rightarrow> List.member [''yes'', ''no'', ''y'', ''n''] (lower (strip l)) \<and>
                      v = PBool (List.member [''yes'', ''y''] (lower (strip l))))) \<and>
      (\<forall>os. opts = Some os \<and> os \<noteq> [] \<longrightarrow> py_in v os)) \<and>
   (stdin w = l # ls \<and> validated t opts (strip l) = Inl e \<longrightarrow>
      get_valid_input p t opts w =
      get_valid_input p t opts
        (w\<lparr>stdin := ls,
           stdout := stdout w @
             [Prompt p, Print [S ''Invalid input: '', E e, S ''. Please try again.'']]\<rparr>)) \<and>
   (get_valid_input p t opts w = (Inl e', w') \<longrightarrow> e' = EOFError \<and> stdin w' = [])"
proof (intro conjI impI)
  assume r: "get_valid_input p t opts w = (Inr v, w')"
  then obtain l where l: "l \<in> set (stdin w)" "validated t opts (strip l) = Inr v"
    using get_valid_input_returns by blast
  from validated_value[OF l(2)] convert_value[of t "strip l" v] l(1)
  show "\<exists>l \<in> set (stdin w). strip l \<noteq> [] \<and> convert t (strip l) = Inr v \<and>
         (case t of
            T_str \<Rightarrow> v = PStr (strip l)
          | T_int \<Rightarrow> (\<exists>i. py_int (strip l) = Some i \<and> v = PInt i)
          | T_bool \<Rightarrow> List.member [''yes'', ''no'', ''y'', ''n''] (lower (strip l)) \<and>
                      v = PBool (List.member [''yes'', ''y''] (lower (strip l))))"
    by blast
  from validated_value[OF l(2)]
  show "\<forall>os. opts = Some os \<and> os \<noteq> [] \<longrightarrow> py_in v os" by blast
next
  assume "stdin w = l # ls \<and> validated t opts (strip l) = Inl e"
  then show "get_valid_input p t opts w =
      get_valid_input p t opts
        (w\<lparr>stdin := ls,
           stdout := stdout w @
             [Prompt p, Print [S ''Invalid input: '', E e, S ''. Please try again.'']]\<rparr>)"
    by (simp add: get_valid_input_invalid)
next
  assume "get_valid_input p t opts w = (Inl e', w')"
  then show "e' = EOFError" "stdin w' = []"
    using get_valid_input_raises by blast+
qed

text \<open>
  C9 as it is stated fails for a restricted set that is empty: the test
  \<^verbatim>\<open>if valid_options and ...\<close> treats an empty list or range as no restriction, and the
  validator returns a value that is no member of the set supplied.
\<close>

theorem get_valid_input_empty_options:
  "fst (get_valid_input ''Enter a value: '' T_str (Some [])
          \<lparr>stdin = [''anything''], stdout = []\<rparr>) = Inr (PStr ''anything'') \<and>
   \<not> py_in (PStr ''anything'') []"
  by code_simp

theorem get_valid_input_value_witness:
  "get_valid_input ''Enter your choice: '' T_int (Some (map PInt [1..6]))
     \<lparr>stdin = [''abc'', ''9'', '' 3 ''], stdout = []\<rparr> =
   get_valid_input ''Enter your choice: '' T_int (Some (map PInt [1..6]))
     \<lparr>stdin = [''9'', '' 3 ''],
      stdout = [Prompt ''Enter your choice: '',
                Print [S ''Invalid input: '',
                       E (ValueError [S ''invalid literal for int() with base 10: '',
                                      R (PStr ''abc'')]),
                       S ''. Please try again.'']]\<rparr> \<and>
   fst (get_valid_input ''Enter your choice: '' T_int (Some (map PInt [1..6]))
     \<lparr>stdin = [''abc'', ''9'', '' 3 ''], stdout = []\<rparr>) = Inr (PInt 3) \<and>
   py_in (PInt 3) (map PInt [1..6])"
proof -
  let ?p = "''Enter your choice: ''"
  let ?opts = "Some (map PInt [1..6])"
  let ?w = "\<lparr>stdin = [''abc'', ''9'', '' 3 ''], stdout = []\<rparr>"
  let ?e = "ValueError [S ''invalid literal for int() with base 10: '', R (PStr ''abc'')]"
  obtain w' where r: "get_valid_input ?p T_int ?opts ?w = (Inr (PInt 3), w')"
  proof -
    have "fst (get_valid_input ?p T_int ?opts ?w) = Inr (PInt 3)" by code_simp
    then show ?thesis using that by (cases "get_valid_input ?p T_int ?opts ?w") simp
  qed
  have i: "stdin ?w = ''abc'' # [''9'', '' 3 ''] \<and>
           validated T_int ?opts (strip ''abc'') = Inl ?e"
    by code_simp
  have o: "?opts = Some (map PInt [1..6]) \<and> map PInt [1..6] \<noteq> []"
    by simp
  note t = get_valid_input_value[of ?p T_int ?opts ?w "PInt 3" w' "''abc''"
             "[''9'', '' 3 '']" ?e]
  from t r o have m: "py_in (PInt 3) (map PInt [1..6])" by blast
  from t i have "get_valid_input ?p T_int ?opts ?w =
      get_valid_input ?p T_int ?opts
        (?w\<lparr>stdin := [''9'', '' 3 ''],
           stdout := stdout ?w @
             [Prompt ?p, Print [S ''Invalid input: '', E ?e, S ''. Please try again.'']]\<rparr>)"
    by blast
  then have q: "get_valid_input ?p T_int ?opts ?w =
      get_valid_input ?p T_int ?opts
        \<lparr>stdin = [''9'', '' 3 ''],
         stdout = [Prompt ?p, Print [S ''Invalid input: '', E ?e, S ''. Please try again.'']]\<rparr>"
    by simp
  from r have "fst (get_valid_input ?p T_int ?opts ?w) = Inr (PInt 3)" by simp
  with q m show ?thesis by blast
qed

section \<open>Decimal numerals\<close>

lemma digit_of_digit: "k < 10 \<Longrightarrow> digit_of (char_of (48 + k)) = Some k"
  by (simp add: digit_of_def)

lemma decimal_digits: "list_all is_digit (decimal n)"
proof (induction n rule: decimal.induct)
  case (1 n)
  show ?case
  proof (cases "n < 10")
    case True
    then show ?thesis by (simp add: decimal.simps[of n] is_digit_def digit_of_digit)
  next
    case False
    with 1 show ?thesis
      by (simp add: decimal.simps[of n] is_digit_def digit_of_digit)
  qed
qed

lemma decimal_value: "digits_value (decimal n) = n"
proof (induction n rule: decimal.induct)
  case (1 n)
  show ?case
  proof (cases "n < 10")
    case True
    then show ?thesis by (simp add: decimal.simps[of n] digits_value_def digit_of_digit)
  next
    case False
    with 1 show ?thesis
      by (simp add: decimal.simps[of n] digits_value_def digit_of_digit)
  qed
qed

lemma zero_digit: "(k::nat) < 10 \<Longrightarrow> char_of (48 + k) = CHR ''0'' \<Longrightarrow> k = 0"
  by (drule arg_cong[where f = "of_char :: char \<Rightarrow> nat"]) simp

lemma decimal_head: "\<exists>c cs. decimal n = c # cs \<and> is_digit c \<and> (c = CHR ''0'' \<longrightarrow> n = 0 \<and> cs = [])"
proof (induction n rule: decimal.induct)
  case (1 n)
  show ?case
  proof (cases "n < 10")
    case True
    then show ?thesis
      by (auto simp add: decimal.simps[of n] is_digit_def digit_of_digit dest: zero_digit)
  next
    case False
    then have "n div 10 \<noteq> 0" by simp
    with False 1 show ?thesis
      by (auto simp: decimal.simps[of n])
  qed
qed

section \<open>Properties of the statistics\<close>

lemma set_first_occurrences [simp]: "set (first_occurrences xs) = set xs"
  by (induction xs) auto

lemma distinct_first_occurrences [simp]: "distinct (first_occurrences xs)"
  by (induction xs) (auto simp: distinct_removeAll)

lemma first_occurrences_snoc:
  "first_occurrences (xs @ [s]) =
   (if s \<in> set xs then first_occurrences xs else first_occurrences xs @ [s])"
  by (induction xs) auto

lemma bump_text_keys:
  "bump (PStr s) (map (\<lambda>t. (PStr t, f t)) ks) =
   (if s \<in> set ks
    then map (\<lambda>t. (PStr t, if t = s then f t + 1 else f t)) ks
    else map (\<lambda>t. (PStr t, f t)) ks @ [(PStr s, 1)])"
  if "distinct ks"
  using that by (induction ks) auto

lemma bump_group_counts: "bump (PStr s) (group_counts xs) = group_counts (xs @ [s])"
  by (auto simp: group_counts_def bump_text_keys first_occurrences_snoc)

lemma count_key_text:
  "has_field is_str k b \<Longrightarrow>
   count_key k b (group_counts xs) = Inr (group_counts (xs @ [text_field k b]))"
  by (simp add: count_key_def and_then_def has_text_field hashable_def bump_group_counts)

lemma count_groups_books:
  "list_all is_book library \<Longrightarrow>
   count_groups library (group_counts gs, group_counts as) =
   Inr (group_counts (gs @ map (text_field ''genre'') library),
        group_counts (as @ map (text_field ''author'') library))"
proof (induction library arbitrary: gs as)
  case Nil
  show ?case by simp
next
  case (Cons b library)
  then have g: "has_field is_str ''genre'' b" and a: "has_field is_str ''author'' b"
    by (auto simp: is_book_def)
  from Cons show ?case
    by (simp add: and_then_def count_key_text[OF g] count_key_text[OF a])
qed

lemma print_counts_lines:
  "print_counts d w = (Inr (), w\<lparr>stdout := stdout w @ map count_line d\<rparr>)"
  by (induction d arbitrary: w) (auto simp: return_def seq_def print_def count_line_def)

lemma read_test:
  "has_field ty ''read'' b \<Longrightarrow>
   and_then (subscript b ''read'') (\<lambda>r. Inr (truthy r)) = Inr (read_flag b)"
  by (auto simp: has_field_def read_flag_def and_then_def split: sum.splits)

lemma read_count_books:
  assumes "list_all is_book library"
  shows "read_count library = Inr (length (filter read_flag library))"
proof -
  have "list_all (has_field is_bool ''read'') library"
    using assms by (simp add: list_all_iff is_book_def)
  then have "list_all (\<lambda>b. and_then (subscript b ''read'') (\<lambda>r. Inr (truthy r)) =
                           Inr (read_flag b)) library"
    by (auto simp: list_all_iff intro: read_test)
  then show ?thesis
    by (simp add: read_count_def filter_exc_total and_then_def)
qed

lemma display_statistics_books:
  assumes "library \<noteq> []" and "list_all is_book library"
  shows "display_statistics library w =
         (Inr (),
          w\<lparr>stdout := stdout w @
            [Print [S (CHR 0x0A # line_of_50)], Print [S ''Library Statistics''],
             Print [S line_of_50],
             Print [S ''Total books: '', V (PInt (int (length library)))],
             Print [S ''Percentage read: '', S (format_1f (percentage_read library)), S ''%''],
             Print [S (CHR 0x0A # ''Books by genre:'')]] @
            map count_line (group_counts (map (text_field ''genre'') library)) @
            [Print [S (CHR 0x0A # ''Books by author:'')]] @
            map count_line (group_counts (map (text_field ''author'') library))\<rparr>)"
proof -
  have c: "count_groups library ([], []) =
           Inr (group_counts (map (text_field ''genre'') library),
                group_counts (map (text_field ''author'') library))"
    using count_groups_books[OF assms(2), of "[]" "[]"] by (simp add: group_counts_def)
  show ?thesis using assms(1)
    by (simp add: display_statistics_def Let_def seq_def lift_def read_count_books[OF assms(2)]
          heading_def print_def c print_counts_lines percentage_read_def)
qed

text \<open>
  C6. For a catalog of book records that is not empty, the lines that \<open>display_statistics\<close>
  prints after its first five are: the genre header, one line for each distinct genre
  text in the order of first occurrence with the number of records that have exactly that
  text, the author header, and the same for the authors. Texts are compared as they
  stand: in the witness \<^verbatim>\<open>Sci-Fi\<close> and \<^verbatim>\<open>sci-fi\<close> are two groups.
\<close>

theorem display_statistics_groups:
  assumes "library \<noteq> []" and "list_all is_book library"
  shows "drop (length (stdout w) + 5) (stdout (snd (display_statistics library w))) =
           [Print [S (CHR 0x0A # ''Books by genre:'')]] @
           map count_line (group_counts (map (text_field ''genre'') library)) @
           [Print [S (CHR 0x0A # ''Books by author:'')]] @
           map count_line (group_counts (map (text_field ''author'') library))"
  by (simp add: display_statistics_books[OF assms])

theorem display_statistics_groups_witness:
  "drop 5 (stdout (snd (display_statistics
     [book ''Dune'' ''Frank Herbert'' 1965 ''Sci-Fi'' True,
      book ''Emma'' ''Jane Austen'' 1815 ''Novel'' False,
      book ''Children of Dune'' ''Frank Herbert'' 1976 ''sci-fi'' False,
      book ''Dune Messiah'' ''Frank Herbert'' 1969 ''Sci-Fi'' True]
     \<lparr>stdin = [], stdout = []\<rparr>))) =
   [Print [S (CHR 0x0A # ''Books by genre:'')],
    Print [S ''- '', V (PStr ''Sci-Fi''), S '': '', V (PInt 2)],
    Print [S ''- '', V (PStr ''Novel''), S '': '', V (PInt 1)],
    Print [S ''- '', V (PStr ''sci-fi''), S '': '', V (PInt 1)],
    Print [S (CHR 0x0A # ''Books by author:'')],
    Print [S ''- '', V (PStr ''Frank Herbert''), S '': '', V (PInt 3)],
    Print [S ''- '', V (PStr ''Jane Austen''), S '': '', V (PInt 1)]]"
proof -
  let ?lib = "[book ''Dune'' ''Frank Herbert'' 1965 ''Sci-Fi'' True,
      book ''Emma'' ''Jane Austen'' 1815 ''Novel'' False,
      book ''Children of Dune'' ''Frank Herbert'' 1976 ''sci-fi'' False,
      book ''Dune Messiah'' ''Frank Herbert'' 1969 ''Sci-Fi'' True]"
  have h1: "?lib \<noteq> []" by simp
  have h2: "list_all is_book ?lib" by code_simp
  have g: "map count_line (group_counts (map (text_field ''genre'') ?lib)) =
     [Print [S ''- '', V (PStr ''Sci-Fi''), S '': '', V (PInt 2)],
      Print [S ''- '', V (PStr ''Novel''), S '': '', V (PInt 1)],
      Print [S ''- '', V (PStr ''sci-fi''), S '': '', V (PInt 1)]]"
    by code_simp
  have a: "map count_line (group_counts (map (text_field ''author'') ?lib)) =
     [Print [S ''- '', V (PStr ''Frank Herbert''), S '': '', V (PInt 3)],
      Print [S ''- '', V (PStr ''Jane Austen''), S '': '', V (PInt 1)]]"
    by code_simp
  note t = display_statistics_groups[OF h1 h2, of "\<lparr>stdin = [], stdout = []\<rparr>"]
  show ?thesis using t unfolding g a by simp
qed

lemma round_half_even_near: "\<bar>of_int (round_half_even x) - x\<bar> \<le> 1 / 2"
proof -
  have a: "of_int \<lfloor>x\<rfloor> \<le> x" and b: "x < of_int \<lfloor>x\<rfloor> + 1" by linarith+
  show ?thesis
    using a b by (auto simp: round_half_even_def Let_def abs_le_iff)
qed

lemma binade_lower: "0 < x \<Longrightarrow> 2 powi (binade x) \<le> x"
proof -
  assume x: "0 < x"
  obtain p q where pq: "quotient_of x = (p, q)" by (cases "quotient_of x")
  have q: "0 < q" using quotient_of_denom_pos[OF pq] .
  have xe: "x = of_int p / of_int q" using quotient_of_div[OF pq] .
  have p: "0 < p" using x q xe by (simp add: zero_less_divide_iff)
  let ?d = "bitlen p - bitlen q"
  show ?thesis
  proof (cases "2 powi ?d \<le> x")
    case True
    then show ?thesis by (simp add: binade_def pq)
  next
    case False
    have bp: "1 \<le> bitlen p" using p by (simp add: bitlen_alt_def)
    have bq: "1 \<le> bitlen q" using q by (simp add: bitlen_alt_def)
    have lo: "(2::int) ^ nat (bitlen p - 1) \<le> p" using bitlen_bounds[OF p] by simp
    have hi: "q < (2::int) ^ nat (bitlen q)" using bitlen_bounds[OF q] by simp
    have lo': "(2::rat) ^ nat (bitlen p - 1) \<le> of_int p"
      using lo by (metis of_int_le_iff of_int_numeral of_int_power)
    have hi': "of_int q \<le> (2::rat) ^ nat (bitlen q)"
      using hi by (metis less_imp_le of_int_le_iff of_int_numeral of_int_power)
    have "(2::rat) powi (?d - 1) = 2 powi (bitlen p - 1) / 2 powi (bitlen q)"
      by (simp add: power_int_diff)
    also have "\<dots> = 2 ^ nat (bitlen p - 1) / 2 ^ nat (bitlen q)"
      using bp bq by (simp add: power_int_nonneg_exp)
    also have "\<dots> \<le> of_int p / of_int q"
      using lo' hi' q p by (intro frac_le) simp_all
    finally have "2 powi (?d - 1) \<le> x" by (simp add: xe)
    then show ?thesis using False by (simp add: binade_def pq)
  qed
qed

lemma to_binary64_near:
  assumes "2 powi (- 1022) \<le> x"
  shows "\<bar>to_binary64 x - x\<bar> \<le> x / 2 ^ 53"
proof -
  have x: "0 < x" using assms by (rule less_le_trans[rotated]) simp
  define e where "e = max (binade x) (- 1022)"
  define ulp :: rat where "ulp = 2 powi (e - 52)"
  have e: "2 powi e \<le> x"
    using binade_lower[OF x] assms by (simp add: e_def max_def)
  have u: "0 < ulp" by (simp add: ulp_def)
  have t: "to_binary64 x = of_int (round_half_even (x / ulp)) * ulp"
    using x by (simp add: to_binary64_def Let_def e_def ulp_def)
  have "to_binary64 x - x = (of_int (round_half_even (x / ulp)) - x / ulp) * ulp"
    using u by (simp add: t left_diff_distrib)
  then have "\<bar>to_binary64 x - x\<bar> = \<bar>of_int (round_half_even (x / ulp)) - x / ulp\<bar> * ulp"
    using u by (simp only: abs_mult abs_of_pos)
  also have "\<dots> \<le> 1 / 2 * ulp"
    using round_half_even_near[of "x / ulp"] u by (intro mult_right_mono) simp_all
  also have "\<dots> = 2 powi e / 2 ^ 53"
    by (simp add: ulp_def power_int_diff)
  also have "\<dots> \<le> x / 2 ^ 53"
    using e by (simp add: divide_right_mono)
  finally show ?thesis .
qed

lemma to_binary64_zero: "to_binary64 0 = 0"
  by (simp add: to_binary64_def)

lemma small_power: "(2::rat) powi (- 1022) \<le> 1 / 2 ^ 40"
proof -
  have "(2::rat) powi (- 1022) \<le> 2 powi (- 40)"
    by (rule power_int_increasing) simp_all
  then show ?thesis by (simp add: power_int_minus_divide)
qed

lemma percentage_near:
  assumes r: "r \<le> t" and t: "0 < t" and b: "t < 2 ^ 40"
  shows "\<bar>float_mul (true_div r t) 100 - 100 * (of_nat r / of_nat t)\<bar> \<le> 1 / 2 ^ 45"
proof (cases "r = 0")
  case True
  then show ?thesis by (simp add: true_div_def float_mul_def to_binary64_zero)
next
  case False
  define q :: rat where "q = of_nat r / of_nat t"
  define a where "a = to_binary64 q"
  have tq: "(of_nat t :: rat) < 2 ^ 40"
    using b by (metis of_nat_less_iff of_nat_numeral of_nat_power)
  have q1: "q \<le> 1" using r t by (simp add: q_def)
  have "1 / of_nat t \<le> q"
    using False t by (simp add: q_def divide_right_mono)
  moreover have "1 / 2 ^ 40 \<le> 1 / (of_nat t :: rat)"
    using tq t by (simp add: frac_le)
  ultimately have q40: "1 / 2 ^ 40 \<le> q" by simp
  then have qn: "2 powi (- 1022) \<le> q" using small_power by simp
  have qa: "\<bar>a - q\<bar> \<le> q / 2 ^ 53"
    unfolding a_def by (rule to_binary64_near[OF qn])
  have qpos: "0 < q" using q40 by (rule less_le_trans[rotated]) simp
  have "q / 2 ^ 53 \<le> q / 2" using qpos by (intro divide_left_mono) simp_all
  moreover have "q - a \<le> \<bar>a - q\<bar>" by linarith
  ultimately have "q - a \<le> q / 2" using qa by linarith
  then have alo: "q / 2 \<le> a" by linarith
  have "a - q \<le> \<bar>a - q\<bar>" by linarith
  then have ahi: "a \<le> q + q / 2 ^ 53" using qa by linarith
  have "2 powi (- 1022) \<le> a * 100"
    using alo q40 small_power by simp
  then have ba: "\<bar>to_binary64 (a * 100) - a * 100\<bar> \<le> a * 100 / 2 ^ 53"
    by (rule to_binary64_near)
  have "to_binary64 (a * 100) - 100 * q = (to_binary64 (a * 100) - a * 100) + 100 * (a - q)"
    by (simp add: algebra_simps)
  then have "\<bar>to_binary64 (a * 100) - 100 * q\<bar> \<le>
             \<bar>to_binary64 (a * 100) - a * 100\<bar> + \<bar>100 * (a - q)\<bar>"
    by (simp only: abs_triangle_ineq)
  also have "\<dots> = \<bar>to_binary64 (a * 100) - a * 100\<bar> + 100 * \<bar>a - q\<bar>"
    by (simp only: abs_mult abs_numeral)
  also have "\<dots> \<le> a * 100 / 2 ^ 53 + 100 * (q / 2 ^ 53)"
    using ba qa by simp
  also have "\<dots> \<le> (q + q / 2 ^ 53) * 100 / 2 ^ 53 + 100 * (q / 2 ^ 53)"
    using ahi by (simp add: divide_right_mono)
  also have "\<dots> \<le> (1 + 1 / 2 ^ 53) * 100 / 2 ^ 53 + 100 * (1 / 2 ^ 53)"
    using q1 by (simp add: divide_right_mono)
  also have "\<dots> \<le> 1 / 2 ^ 45" by simp
  finally show ?thesis by (simp add: float_mul_def true_div_def a_def q_def)
qed

lemma tenths_decimal:
  assumes "d < 10"
  shows "tenths (decimal m @ ''.'' @ decimal d) = Some (10 * m + d)"
proof -
  have dd: "decimal d = [char_of (48 + d)]" using assms by (simp add: decimal.simps)
  have dig: "is_digit (char_of (48 + d))"
    using assms by (simp add: is_digit_def digit_of_digit)
  have val: "digits_value [char_of (48 + d)] = d"
    using assms by (simp add: digits_value_def digit_of_digit)
  have all: "\<And>c. c \<in> set (decimal m) \<Longrightarrow> is_digit c"
    using decimal_digits[of m] by (simp add: list_all_iff)
  have dot: "\<not> is_digit CHR ''.''" by (simp add: is_digit_def digit_of_def)
  have tk: "takeWhile is_digit (decimal m @ ''.'' @ decimal d) = decimal m"
    using all dot by (simp add: takeWhile_append2)
  have dr: "dropWhile is_digit (decimal m @ ''.'' @ decimal d) = [CHR ''.'', char_of (48 + d)]"
    using all dot by (simp add: dropWhile_append2 dd)
  obtain c cs where h: "decimal m = c # cs" "c = CHR ''0'' \<longrightarrow> m = 0 \<and> cs = []"
    using decimal_head[of m] by blast
  have ne: "decimal m \<noteq> []" using h by simp
  have hz: "hd (decimal m) = CHR ''0'' \<longrightarrow> length (decimal m) = 1"
    unfolding h(1) using h(2) by simp
  show ?thesis
    unfolding tenths_def tk dr by (simp add: Let_def dig ne hz val decimal_value)
qed

lemma percentage_text:
  assumes r: "r \<le> t" and t: "0 < t" and b: "t < 2 ^ 40"
  shows "\<exists>k. tenths (format_1f (float_mul (true_div r t) 100)) = Some k \<and>
             \<bar>of_nat k / 10 - 100 * (of_nat r / of_nat t)\<bar> \<le> (1 / 20 :: rat)"
proof -
  define q :: rat where "q = of_nat r / of_nat t"
  define x where "x = float_mul (true_div r t) 100"
  define z where "z = round_half_even (x * 10)"
  define m where "m = z * int t - 1000 * int r"
  have tp: "(0::rat) < of_nat t" using t by simp
  have tq: "(of_nat t :: rat) < 2 ^ 40"
    using b by (metis of_nat_less_iff of_nat_numeral of_nat_power)
  have xq: "\<bar>x - 100 * q\<bar> \<le> 1 / 2 ^ 45"
    unfolding x_def q_def by (rule percentage_near[OF r t b])
  have zx: "\<bar>of_int z - x * 10\<bar> \<le> 1 / 2"
    unfolding z_def by (rule round_half_even_near)
  have "of_int z - 1000 * q = (of_int z - x * 10) + 10 * (x - 100 * q)"
    by (simp add: algebra_simps)
  then have "\<bar>of_int z - 1000 * q\<bar> \<le> \<bar>of_int z - x * 10\<bar> + \<bar>10 * (x - 100 * q)\<bar>"
    by (simp only: abs_triangle_ineq)
  also have "\<dots> = \<bar>of_int z - x * 10\<bar> + 10 * \<bar>x - 100 * q\<bar>"
    by (simp only: abs_mult abs_numeral)
  also have "\<dots> \<le> 1 / 2 + 10 * (1 / 2 ^ 45)"
    using zx xq by simp
  finally have zq: "\<bar>of_int z - 1000 * q\<bar> \<le> 1 / 2 + 10 / 2 ^ 45" by simp
  have me: "(of_int m :: rat) = (of_int z - 1000 * q) * of_nat t"
    using tp by (simp add: m_def q_def left_diff_distrib)
  have am: "\<bar>of_int m :: rat\<bar> = \<bar>of_int z - 1000 * q\<bar> * of_nat t"
    using tp by (simp only: me abs_mult abs_of_pos)
  note am
  also have "\<dots> \<le> (1 / 2 + 10 / 2 ^ 45) * of_nat t"
    using zq tp by (intro mult_right_mono) simp_all
  also have "\<dots> = of_nat t / 2 + of_nat t * (10 / 2 ^ 45)"
    by (simp add: algebra_simps)
  also have "\<dots> < of_nat t / 2 + 2 ^ 40 * (10 / 2 ^ 45)"
    using tq by simp
  also have "\<dots> \<le> of_nat t / 2 + 1 / 2" by simp
  finally have "\<bar>of_int (2 * m) :: rat\<bar> < of_int (int t + 1)"
    by (simp add: abs_mult)
  then have "\<bar>2 * m\<bar> < int t + 1"
    by (metis of_int_abs of_int_less_iff)
  then have m2: "\<bar>2 * m\<bar> \<le> int t" by simp
  then have "\<bar>of_int (2 * m) :: rat\<bar> \<le> of_int (int t)"
    by (metis of_int_abs of_int_le_iff)
  then have mh: "\<bar>of_int m :: rat\<bar> \<le> of_nat t / 2"
    by (simp add: abs_mult)
  have "\<bar>of_int z - 1000 * q\<bar> * of_nat t \<le> (1 / 2) * of_nat t"
    using mh unfolding am by simp
  from this tp have zh: "\<bar>of_int z - 1000 * q\<bar> \<le> 1 / 2"
    by (rule mult_right_le_imp_le)
  have q0: "0 \<le> q" by (simp add: q_def)
  have "- (of_int z - 1000 * q) \<le> \<bar>of_int z - 1000 * q\<bar>" by (rule abs_ge_minus_self)
  then have "- (1 / 2) \<le> of_int z - 1000 * q" using zh by linarith
  then have "(- 1 :: rat) < of_int z" using q0 by linarith
  then have "- 1 < z" by (metis of_int_less_iff of_int_minus of_int_1)
  then have z0: "0 \<le> z" by simp
  have f: "format_1f x = decimal (nat z div 10) @ ''.'' @ decimal (nat z mod 10)"
    by (simp add: format_1f_def z_def Let_def)
  have k: "tenths (format_1f x) = Some (nat z)"
    unfolding f by (subst tenths_decimal) simp_all
  have nz: "(of_nat (nat z) :: rat) = of_int z"
    using z0 by (metis of_int_of_nat_eq int_nat_eq)
  have "of_nat (nat z) / 10 - 100 * q = (of_int z - 1000 * q) / (10 :: rat)"
    unfolding nz by (simp add: diff_divide_distrib)
  then have "\<bar>of_nat (nat z) / 10 - 100 * q\<bar> = \<bar>of_int z - 1000 * q\<bar> / (10 :: rat)"
    by (simp only: abs_divide abs_numeral)
  also have "\<dots> \<le> (1 / 2) / 10" using zh by (intro divide_right_mono) simp_all
  finally have "\<bar>of_nat (nat z) / 10 - 100 * q\<bar> \<le> (1 / 20 :: rat)" by simp
  with k show ?thesis unfolding x_def q_def by blast
qed

text \<open>
  C7. On the empty catalog \<open>display_statistics\<close> prints that the library is empty, and
  nothing else. On a catalog of book records that is not empty it raises nothing, and its
  fifth line is the percentage with one decimal: the text between \<^verbatim>\<open>Percentage read: \<close>
  and the per cent sign is a numeral with one digit after the point, and the number it
  stands for differs from 100 times the read records over all records, taken exactly, by
  no more than a twentieth: it is that percentage rounded to one decimal. (Where the
  exact percentage lies midway between two such numerals either may stand: 23 read of 80
  is 28.75 exactly, and the program prints 28.7.) The program computes in binary64; the
  bound is proved for catalogs of fewer than \<open>2 ^ 40\<close> records, where the rounding errors of
  the division and of the multiplication are too small to move the result to another
  decimal. The witness is the case of the specification: one book read of four gives
  \<^verbatim>\<open>25.0%\<close>.
\<close>

theorem display_statistics_percentage:
  "display_statistics [] w =
     (Inr (), w\<lparr>stdout := stdout w @ [Print [S (CHR 0x0A # ''Your library is empty!'')]]\<rparr>) \<and>
   (library \<noteq> [] \<and> list_all is_book library \<and> length library < 2 ^ 40 \<longrightarrow>
      fst (display_statistics library w) = Inr () \<and>
      (\<exists>num k.
         stdout (snd (display_statistics library w)) ! (length (stdout w) + 4) =
           Print [S ''Percentage read: '', S num, S ''%''] \<and>
         tenths num = Some k \<and>
         \<bar>of_nat k / 10 -
          100 * (of_nat (length (filter read_flag library)) / of_nat (length library))\<bar>
           \<le> (1 / 20 :: rat)))"
proof (intro conjI impI)
  show "display_statistics [] w =
     (Inr (), w\<lparr>stdout := stdout w @ [Print [S (CHR 0x0A # ''Your library is empty!'')]]\<rparr>)"
    by (simp add: display_statistics_def print_def)
next
  assume "library \<noteq> [] \<and> list_all is_book library \<and> length library < 2 ^ 40"
  then show "fst (display_statistics library w) = Inr ()"
    by (simp add: display_statistics_books)
next
  assume h: "library \<noteq> [] \<and> list_all is_book library \<and> length library < 2 ^ 40"
  then have a: "library \<noteq> []" "list_all is_book library" by simp_all
  have l: "stdout (snd (display_statistics library w)) ! (length (stdout w) + 4) =
      Print [S ''Percentage read: '', S (format_1f (percentage_read library)), S ''%'']"
    by (simp add: display_statistics_books[OF a] nth_append)
  have "length (filter read_flag library) \<le> length library" by simp
  moreover have "0 < length library" using a(1) by simp
  moreover have "length library < 2 ^ 40" using h by simp
  ultimately obtain k where
    "tenths (format_1f (percentage_read library)) = Some k"
    "\<bar>of_nat k / 10 -
      100 * (of_nat (length (filter read_flag library)) / of_nat (length library))\<bar>
       \<le> (1 / 20 :: rat)"
    unfolding percentage_read_def using percentage_text by blast
  with l show "\<exists>num k.
         stdout (snd (display_statistics library w)) ! (length (stdout w) + 4) =
           Print [S ''Percentage read: '', S num, S ''%''] \<and>
         tenths num = Some k \<and>
         \<bar>of_nat k / 10 -
          100 * (of_nat (length (filter read_flag library)) / of_nat (length library))\<bar>
           \<le> (1 / 20 :: rat)"
    by blast
qed

theorem display_statistics_percentage_witness:
  "stdout (snd (display_statistics
     [book ''Dune'' ''Frank Herbert'' 1965 ''Sci-Fi'' True,
      book ''Emma'' ''Jane Austen'' 1815 ''Novel'' False,
      book ''Children of Dune'' ''Frank Herbert'' 1976 ''Sci-Fi'' False,
      book ''Dune Messiah'' ''Frank Herbert'' 1969 ''Sci-Fi'' False]
     \<lparr>stdin = [], stdout = []\<rparr>)) ! 4 =
   Print [S ''Percentage read: '', S ''25.0'', S ''%''] \<and>
   tenths ''25.0'' = Some 250 \<and>
   \<bar>of_nat 250 / 10 - 100 * (of_nat 1 / of_nat 4)\<bar> \<le> (1 / 20 :: rat)"
proof -
  let ?lib = "[book ''Dune'' ''Frank Herbert'' 1965 ''Sci-Fi'' True,
      book ''Emma'' ''Jane Austen'' 1815 ''Novel'' False,
      book ''Children of Dune'' ''Frank Herbert'' 1976 ''Sci-Fi'' False,
      book ''Dune Messiah'' ''Frank Herbert'' 1969 ''Sci-Fi'' False]"
  let ?w = "\<lparr>stdin = [], stdout = []\<rparr>"
  have h1: "?lib \<noteq> [] \<and> list_all is_book ?lib" by code_simp
  have h2: "length ?lib < 2 ^ 40" by simp
  have r: "length (filter read_flag ?lib) = 1" by code_simp
  have f: "format_1f (percentage_read ?lib) = ''25.0''" by code_simp
  have l: "stdout (snd (display_statistics ?lib ?w)) ! 4 =
           Print [S ''Percentage read: '', S ''25.0'', S ''%'']"
    using h1 by (simp add: display_statistics_books nth_append f)
  note t = display_statistics_percentage[of ?w ?lib]
  from t h1 h2 obtain num k where
    n: "stdout (snd (display_statistics ?lib ?w)) ! (length (stdout ?w) + 4) =
          Print [S ''Percentage read: '', S num, S ''%'']"
    and k: "tenths num = Some k"
    and b: "\<bar>of_nat k / 10 -
             100 * (of_nat (length (filter read_flag ?lib)) / of_nat (length ?lib))\<bar>
            \<le> (1 / 20 :: rat)"
    by blast
  from n l have num: "num = ''25.0''" by simp
  have v: "tenths ''25.0'' = Some 250" by code_simp
  from k v have k250: "k = 250" unfolding num by simp
  from b have "\<bar>of_nat 250 / 10 - 100 * (of_nat 1 / of_nat 4)\<bar> \<le> (1 / 20 :: rat)"
    unfolding k250 r by simp
  with l v show ?thesis by blast
qed

section \<open>The round trip through JSON\<close>

lemma hex_val_hex_digit: "k < 16 \<Longrightarrow> hex_val (hex_digit k) = Some k"
  by (auto simp: hex_val_def hex_digit_def)

lemma escape_scan:
  "scan_string acc (escape_char c @ t) = scan_string (acc @ [c]) t"
proof -
  let ?n = "of_char c :: nat"
  have n: "?n < 256" by simp
  have z: "hex_val (CHR ''0'') = Some 0" by (simp add: hex_val_def)
  have "?n div 16 < 16" using n by (simp add: less_mult_imp_div_less)
  then have hi: "hex_val (hex_digit (?n div 16)) = Some (?n div 16)"
    by (rule hex_val_hex_digit)
  have lo: "hex_val (hex_digit (?n mod 16)) = Some (?n mod 16)"
    by (rule hex_val_hex_digit) simp
  have h: "hex4 (CHR ''0'') (CHR ''0'') (hex_digit (?n div 16)) (hex_digit (?n mod 16)) = Some ?n"
    by (simp add: hex4_def z hi lo)
  show ?thesis
    by (auto simp: escape_char_def Let_def h unescape_def)
qed

lemma scan_string_encoded:
  "scan_string acc (concat (map escape_char s) @ CHR 0x22 # rest) = Inr (acc @ s, rest)"
  by (induction s arbitrary: acc) (simp_all add: escape_scan)

lemma delimited_facts:
  assumes "delimited rest"
  shows "\<not> starts_fraction rest" and "\<not> starts_exponent rest"
    and "list_all is_digit ds \<Longrightarrow> takeWhile is_digit (ds @ rest) = ds"
proof -
  show "\<not> starts_fraction rest" using assms
    by (auto simp: delimited_def starts_fraction_def split: list.splits)
  show "\<not> starts_exponent rest" using assms
    by (auto simp: delimited_def starts_exponent_def split: list.splits)
  have "takeWhile is_digit rest = []" using assms
    by (auto simp: delimited_def is_digit_def digit_of_def split: list.splits)
  then show "list_all is_digit ds \<Longrightarrow> takeWhile is_digit (ds @ rest) = ds"
    by (simp add: list_all_iff takeWhile_append2)
qed

lemma scan_decimal:
  assumes "delimited rest"
  shows "scan_number (decimal n @ rest) = Inr (PInt (int n), rest)"
proof -
  obtain c cs where d: "decimal n = c # cs" "is_digit c" "c = CHR ''0'' \<longrightarrow> n = 0 \<and> cs = []"
    using decimal_head by blast
  have m: "c \<noteq> CHR ''-''" using d(2) by (auto simp: is_digit_def digit_of_def)
  have t: "takeWhile is_digit (decimal n @ rest) = decimal n"
    using delimited_facts(3)[OF assms decimal_digits] .
  show ?thesis
  proof (cases "c = CHR ''0''")
    case True
    with d have "decimal n = ''0''" "n = 0" by simp_all
    then show ?thesis using delimited_facts(1,2)[OF assms]
      by (simp add: scan_number_def digits_value_def digit_of_def)
  next
    case False
    have "scan_number (decimal n @ rest) = Inr (PInt (int (digits_value (decimal n))), rest)"
      using False m delimited_facts(1,2)[OF assms] t d(1)
      by (simp add: scan_number_def Let_def del: takeWhile_append)
    then show ?thesis by (simp add: decimal_value)
  qed
qed
lemma scan_int_repr:
  assumes "delimited rest"
  shows "scan_number (int_repr i @ rest) = Inr (PInt i, rest)"
proof (cases "i < 0")
  case False
  then show ?thesis using scan_decimal[OF assms, of "nat i"] by (simp add: int_repr_def)
next
  case True
  let ?m = "nat (- i)"
  obtain c cs where d: "decimal ?m = c # cs" "is_digit c" "c = CHR ''0'' \<longrightarrow> ?m = 0 \<and> cs = []"
    using decimal_head by blast
  have nz: "c \<noteq> CHR ''0''" using d(3) True by auto
  have t: "takeWhile is_digit (decimal ?m @ rest) = decimal ?m"
    using delimited_facts(3)[OF assms decimal_digits] .
  have "scan_number (CHR ''-'' # decimal ?m @ rest) =
        Inr (PInt (- int (digits_value (decimal ?m))), rest)"
    using nz delimited_facts(1,2)[OF assms] t d(1)
    by (simp add: scan_number_def Let_def del: takeWhile_append)
  then show ?thesis using True by (simp add: int_repr_def decimal_value)
qed

lemma skip_ws_newline_indent [simp]: "skip_ws (newline_indent l @ s) = skip_ws s"
proof -
  have "dropWhile is_ws (newline_indent l @ s) = dropWhile is_ws s"
    by (rule dropWhile_append2) (auto simp: newline_indent_def is_ws_def)
  then show ?thesis by (simp add: skip_ws_def)
qed

lemma skip_ws_starts_value: "starts_value s \<Longrightarrow> skip_ws s = s"
  by (auto simp: starts_value_def skip_ws_def split: list.splits)

lemma int_repr_head:
  "\<exists>c cs. int_repr i = c # cs \<and> (c = CHR ''-'' \<or> is_digit c)"
  using decimal_head[of "nat i"] by (auto simp: int_repr_def)

lemma digit_not_special:
  assumes "c = CHR ''-'' \<or> is_digit c"
  shows "c \<noteq> CHR 0x22" "c \<noteq> CHR ''{''" "c \<noteq> CHR ''[''" "c \<noteq> CHR ''n''" "c \<noteq> CHR ''t''"
    "c \<noteq> CHR ''f''" "\<not> is_ws c" "c \<noteq> CHR '']''" "c \<noteq> CHR ''}''"
  using assms by (auto simp: is_digit_def digit_of_def is_ws_def)

lemma encode_starts_value: "starts_value (encode l v @ rest)"
proof (cases v)
  case (PInt i)
  obtain c cs where "int_repr i = c # cs" "c = CHR ''-'' \<or> is_digit c"
    using int_repr_head by blast
  then show ?thesis using PInt digit_not_special[of c]
    by (simp add: starts_value_def)
qed (auto simp: starts_value_def is_ws_def encode_string_def)

lemma parse_int:
  assumes "delimited rest"
  shows "parse_value (Suc n) (int_repr i @ rest) = Inr (PInt i, rest)"
proof -
  obtain c cs where h: "int_repr i = c # cs" "c = CHR ''-'' \<or> is_digit c"
    using int_repr_head by blast
  have "parse_value (Suc n) (int_repr i @ rest) = scan_number (int_repr i @ rest)"
    using digit_not_special[OF h(2)] by (simp add: h(1))
  then show ?thesis by (simp add: scan_int_repr[OF assms])
qed
lemma skip_ws_punct [simp]:
  "skip_ws (CHR '']'' # s) = CHR '']'' # s"
  "skip_ws (CHR ''}'' # s) = CHR ''}'' # s"
  "skip_ws (CHR '','' # s) = CHR '','' # s"
  "skip_ws (CHR '':'' # s) = CHR '':'' # s"
  "skip_ws (CHR 0x22 # s) = CHR 0x22 # s"
  "skip_ws (CHR '' '' # s) = skip_ws s"
  "skip_ws [] = []"
  by (simp_all add: skip_ws_def is_ws_def)

lemma parse_atoms:
  "parse_value (Suc n) (''null'' @ rest) = Inr (PNone, rest)"
  "parse_value (Suc n) (''true'' @ rest) = Inr (PBool True, rest)"
  "parse_value (Suc n) (''false'' @ rest) = Inr (PBool False, rest)"
  "parse_value (Suc n) (encode_string s @ rest) = Inr (PStr s, rest)"
  by (simp_all add: encode_string_def scan_string_encoded)

lemma members_head:
  "d \<noteq> [] \<Longrightarrow> encode_members l d = CHR 0x22 # tl (encode_members l d)"
  by (cases d) (auto simp: encode_string_def)

lemma dict_set_new: "k \<notin> fst ` set acc \<Longrightarrow> dict_set acc k v = acc @ [(k, v)]"
  by (induction acc) auto

lemma parse_elements_encoded:
  assumes ih: "\<And>x l n rest. x \<in> set xs \<Longrightarrow> wf x \<Longrightarrow> length (encode l x) \<le> n \<Longrightarrow>
                 delimited rest \<Longrightarrow> parse_value n (encode l x @ rest) = Inr (x, rest)"
    and "xs \<noteq> []" and "list_all wf xs" and "length (encode_items l xs) < n"
  shows "parse_elements n acc (encode_items l xs @ newline_indent m @ CHR '']'' # rest) =
         Inr (PList (acc @ xs), rest)"
  using assms
proof (induction xs arbitrary: n acc)
  case Nil
  then show ?case by simp
next
  case (Cons x xs)
  from Cons.prems(4) obtain k where n: "n = Suc k" by (cases n) auto
  have wx: "wf x" using Cons.prems(3) by simp
  show ?case
  proof (cases "xs = []")
    case True
    have d: "delimited (newline_indent m @ CHR '']'' # rest)"
      by (simp add: delimited_def newline_indent_def)
    have lx: "length (encode l x) \<le> k" using Cons.prems(4) True n by simp
    have "parse_value k (encode l x @ newline_indent m @ CHR '']'' # rest) =
          Inr (x, newline_indent m @ CHR '']'' # rest)"
      using Cons.prems(1)[OF _ wx lx d] by simp
    then show ?thesis using True n
      by simp
  next
    case False
    let ?tail = "encode_items l xs @ newline_indent m @ CHR '']'' # rest"
    have d: "delimited (CHR '','' # newline_indent l @ ?tail)"
      by (simp add: delimited_def)
    have lx: "length (encode l x) \<le> k" using Cons.prems(4) False n by simp
    have lxs: "length (encode_items l xs) < k" using Cons.prems(4) False n
      by (simp add: newline_indent_def)
    have p: "parse_value k (encode l x @ CHR '','' # newline_indent l @ ?tail) =
          Inr (x, CHR '','' # newline_indent l @ ?tail)"
      using Cons.prems(1)[OF _ wx lx d] by simp
    obtain y ys where xs: "xs = y # ys" using False by (cases xs) auto
    have sv: "starts_value ?tail"
      using encode_starts_value[of l y] by (simp add: xs starts_value_def split: list.splits)
    have r: "parse_elements k (acc @ [x]) ?tail = Inr (PList ((acc @ [x]) @ xs), rest)"
      using Cons.IH[OF _ False _ lxs] Cons.prems(1,3) by simp
    show ?thesis using False n p r
      by (simp add: skip_ws_starts_value[OF sv])
  qed
qed
lemma parse_members_encoded:
  assumes ih: "\<And>k v l n rest. (k, v) \<in> set d \<Longrightarrow> wf v \<Longrightarrow> length (encode l v) \<le> n \<Longrightarrow>
                 delimited rest \<Longrightarrow> parse_value n (encode l v @ rest) = Inr (v, rest)"
    and "d \<noteq> []" and "list_all (\<lambda>(k, v). wf v) d" and "distinct (map fst (acc @ d))"
    and "length (encode_members l d) < n"
  shows "parse_members n acc (tl (encode_members l d) @ newline_indent m @ CHR ''}'' # rest) =
         Inr (PDict (acc @ d), rest)"
  using assms
proof (induction d arbitrary: n acc)
  case Nil
  then show ?case by simp
next
  case (Cons kv d)
  obtain k v where kv: "kv = (k, v)" by (cases kv)
  from Cons.prems(5) obtain j where n: "n = Suc j" by (cases n) auto
  have wv: "wf v" using Cons.prems(3) kv by simp
  have new: "dict_set acc k v = acc @ [(k, v)]"
    using Cons.prems(4) kv by (intro dict_set_new) auto
  have lv: "length (encode l v) \<le> j" using Cons.prems(5) n kv
    by (simp add: encode_string_def split: if_splits)
  show ?case
  proof (cases "d = []")
    case True
    let ?after = "newline_indent m @ CHR ''}'' # rest"
    have dl: "delimited ?after" by (simp add: delimited_def newline_indent_def)
    have p: "parse_value j (encode l v @ ?after) = Inr (v, ?after)"
      using Cons.prems(1)[of k v, OF _ wv lv dl] kv by simp
    have sv: "skip_ws (encode l v @ ?after) = encode l v @ ?after"
      using encode_starts_value by (rule skip_ws_starts_value)
    show ?thesis using True n kv p sv new
      by (simp add: encode_string_def scan_string_encoded)
  next
    case False
    let ?tail = "tl (encode_members l d) @ newline_indent m @ CHR ''}'' # rest"
    let ?after = "CHR '','' # newline_indent l @ CHR 0x22 # ?tail"
    have hd: "encode_members l d = CHR 0x22 # tl (encode_members l d)"
      using False by (rule members_head)
    have dl: "delimited ?after" by (simp add: delimited_def)
    have p: "parse_value j (encode l v @ ?after) = Inr (v, ?after)"
      using Cons.prems(1)[of k v, OF _ wv lv dl] kv by simp
    have sv: "skip_ws (encode l v @ ?after) = encode l v @ ?after"
      using encode_starts_value by (rule skip_ws_starts_value)
    have ld: "length (encode_members l d) < j" using Cons.prems(5) n kv False
      by (simp add: encode_string_def)
    have dist: "distinct (map fst ((acc @ [(k, v)]) @ d))" using Cons.prems(4) kv by simp
    have ih': "\<And>k' v' l' n' rest'. (k', v') \<in> set d \<Longrightarrow> wf v' \<Longrightarrow>
                 length (encode l' v') \<le> n' \<Longrightarrow> delimited rest' \<Longrightarrow>
                 parse_value n' (encode l' v' @ rest') = Inr (v', rest')"
    proof -
      fix k' v' l' n' rest'
      assume a: "(k', v') \<in> set d" "wf v'" "length (encode l' v') \<le> n'" "delimited rest'"
      from a(1) have "(k', v') \<in> set (kv # d)" by simp
      from Cons.prems(1)[OF this a(2) a(3) a(4)]
      show "parse_value n' (encode l' v' @ rest') = Inr (v', rest')" .
    qed
    have wd: "list_all (\<lambda>(k, v). wf v) d" using Cons.prems(3) by simp
    have r: "parse_members j (acc @ [(k, v)]) ?tail = Inr (PDict ((acc @ [(k, v)]) @ d), rest)"
      using Cons.IH[OF ih' False wd dist ld] by simp
    have shape: "tl (encode_members l (kv # d)) @ newline_indent m @ CHR ''}'' # rest =
          concat (map escape_char k) @ CHR 0x22 # CHR '':'' # CHR '' '' # encode l v @ ?after"
    proof -
      obtain t where t: "encode_members l d = CHR 0x22 # t" using hd by blast
      show ?thesis using False kv by (simp add: encode_string_def t)
    qed
    show ?thesis unfolding shape using n p sv new r kv
      by (simp add: scan_string_encoded)
  qed
qed
lemma encode_nonempty: "encode l v \<noteq> []"
  using encode_starts_value[of l v "[]"] by (auto simp: starts_value_def)

lemma parse_encoded:
  "wf v \<Longrightarrow> length (encode l v) \<le> n \<Longrightarrow> delimited rest \<Longrightarrow>
   parse_value n (encode l v @ rest) = Inr (v, rest)"
proof (induction v arbitrary: l n rest)
  case PNone
  then obtain k where "n = Suc k" by (cases n) auto
  then show ?case by simp
next
  case (PBool b)
  then obtain k where "n = Suc k" by (cases n) (auto split: if_splits)
  then show ?case by (cases b) simp_all
next
  case (PInt i)
  then obtain k where "n = Suc k" using encode_nonempty[of l "PInt i"] by (cases n) auto
  then show ?case using PInt.prems(3) by (simp add: parse_int del: parse_value.simps)
next
  case (PStr s)
  then obtain k where "n = Suc k" by (cases n) (auto simp: encode_string_def)
  then show ?case by (simp add: encode_string_def scan_string_encoded)
next
  case (PList xs)
  then obtain k where n: "n = Suc k" by (cases n) (auto split: if_splits)
  show ?case
  proof (cases "xs = []")
    case True
    then show ?thesis using n by simp
  next
    case False
    let ?items = "encode_items (l + 1) xs @ newline_indent l @ CHR '']'' # rest"
    obtain y ys where xs: "xs = y # ys" using False by (cases xs) auto
    have sv: "starts_value ?items"
      using encode_starts_value[of "l + 1" y] by (simp add: xs starts_value_def split: list.splits)
    then obtain c1 r where c1: "?items = c1 # r" "c1 \<noteq> CHR '']''"
      by (auto simp: starts_value_def split: list.splits)
    have len: "length (encode_items (l + 1) xs) < k"
      using PList.prems(2) False n by (simp add: newline_indent_def)
    have ih: "\<And>x l n rest. x \<in> set xs \<Longrightarrow> wf x \<Longrightarrow> length (encode l x) \<le> n \<Longrightarrow>
                 delimited rest \<Longrightarrow> parse_value n (encode l x @ rest) = Inr (x, rest)"
      using PList.IH by blast
    have w: "list_all wf xs" using PList.prems(1) by simp
    have e: "parse_elements k [] ?items = Inr (PList ([] @ xs), rest)"
      using ih False w len by (rule parse_elements_encoded)
    have s: "skip_ws ?items = c1 # r"
      using skip_ws_starts_value[OF sv] c1(1) by simp
    have "parse_value (Suc k) (CHR ''['' # newline_indent (l + 1) @ ?items) =
          parse_elements k [] (c1 # r)"
      using c1(2) s by simp
    then show ?thesis using False n e c1(1) by simp
  qed
next
  case (PDict d)
  then obtain k where n: "n = Suc k" by (cases n) (auto split: if_splits)
  show ?case
  proof (cases "d = []")
    case True
    then show ?thesis using n by simp
  next
    case False
    let ?tail = "tl (encode_members (l + 1) d) @ newline_indent l @ CHR ''}'' # rest"
    have hd: "encode_members (l + 1) d = CHR 0x22 # tl (encode_members (l + 1) d)"
      using False by (rule members_head)
    have len: "length (encode_members (l + 1) d) < k"
      using PDict.prems(2) False n by (simp add: newline_indent_def)
    have ih: "\<And>k v l n rest. (k, v) \<in> set d \<Longrightarrow> wf v \<Longrightarrow> length (encode l v) \<le> n \<Longrightarrow>
                 delimited rest \<Longrightarrow> parse_value n (encode l v @ rest) = Inr (v, rest)"
    proof -
      fix k' v' l' n' rest'
      assume a: "(k', v') \<in> set d" "wf v'" "length (encode l' v') \<le> n'" "delimited rest'"
      have "v' \<in> Basic_BNFs.snds (k', v')" by simp
      from PDict.IH[OF a(1) this a(2) a(3) a(4)]
      show "parse_value n' (encode l' v' @ rest') = Inr (v', rest')" .
    qed
    have w: "list_all (\<lambda>(k, v). wf v) d" and di: "distinct (map fst ([] @ d))"
      using PDict.prems(1) by simp_all
    have e: "parse_members k [] ?tail = Inr (PDict ([] @ d), rest)"
      using ih False w di len by (rule parse_members_encoded)
    have "encode l (PDict d) @ rest =
          CHR ''{'' # newline_indent (l + 1) @ CHR 0x22 # ?tail"
    proof -
      obtain t where t: "encode_members (l + 1) d = CHR 0x22 # t" using hd by blast
      show ?thesis using False t by simp
    qed
    then show ?thesis using n e by simp
  qed
qed

lemma json_round_trip: "wf v \<Longrightarrow> json_loads (json_dumps v) = Inr v"
proof -
  assume w: "wf v"
  have d: "delimited []" by (simp add: delimited_def)
  have s: "skip_ws (encode 0 v) = encode 0 v"
    using encode_starts_value[of 0 v "[]"] skip_ws_starts_value by fastforce
  have "parse_value (2 * length (encode 0 v) + 1) (encode 0 v @ []) = Inr (v, [])"
    using w _ d by (rule parse_encoded) simp
  then show ?thesis by (simp add: json_loads_def json_dumps_def s)
qed

section \<open>Properties of the persistence\<close>

lemma book_is_book: "is_book (book t a y g r)"
  by (simp add: is_book_def book_def has_field_def subscript_def)

lemma typed_input:
  assumes "get_valid_input p t None w = (Inr v, w')"
  shows "case t of T_str \<Rightarrow> is_str v | T_int \<Rightarrow> is_int v | T_bool \<Rightarrow> is_bool v"
proof -
  obtain l where "validated t None (strip l) = Inr v"
    using get_valid_input_returns[OF assms] by blast
  then have "convert t (strip l) = Inr v"
    by (auto simp: validated_def split: if_splits sum.splits)
  then show ?thesis
    by (cases t) (auto simp: convert_def Let_def split: option.splits if_splits)
qed

lemma add_book_result:
  assumes "add_book library w = (Inr library', w')"
  shows "\<exists>t a y g r. library' = library @ [book t a y g r]"
proof -
  from assms obtain title author year genre read w1 w2 w3 w4 w5 w6 where
    g: "get_valid_input ''Enter the book title: '' T_str None w1 = (Inr title, w2)"
       "get_valid_input ''Enter the author: '' T_str None w2 = (Inr author, w3)"
       "get_valid_input ''Enter the publication year: '' T_int None w3 = (Inr year, w4)"
       "get_valid_input ''Enter the genre: '' T_str None w4 = (Inr genre, w5)"
       "get_valid_input ''Have you read this book? (yes/no): '' T_bool None w5 = (Inr read, w6)"
    and l: "library' = library @
       [PDict [(''title'', title), (''author'', author), (''year'', year),
               (''genre'', genre), (''read'', read)]]"
    by (auto simp: add_book_def seq_def heading_def print_def return_def
             split: prod.splits sum.splits)
  from typed_input[OF g(1)] typed_input[OF g(2)] typed_input[OF g(3)] typed_input[OF g(4)]
    typed_input[OF g(5)]
  obtain t a y ge r where "title = PStr t" "author = PStr a" "year = PInt y" "genre = PStr ge"
    "read = PBool r"
    by (auto elim!: is_str.elims is_int.elims is_bool.elims)
  with l show ?thesis by (auto simp: book_def)
qed

lemma add_book_keeps_books:
  "list_all is_book library \<Longrightarrow>
   list_all is_book (library_after library (fst (add_book library w)))"
proof (cases "add_book library w")
  case (Pair r w')
  assume b: "list_all is_book library"
  show ?thesis
  proof (cases r)
    case (Inl e)
    with Pair b show ?thesis by (simp add: library_after_def)
  next
    case (Inr library')
    with Pair add_book_result[of library w library' w'] b show ?thesis
      by (auto simp: library_after_def book_is_book)
  qed
qed

lemma remove_book_keeps_books:
  "list_all is_book library \<Longrightarrow>
   list_all is_book (library_after library (fst (remove_book library w)))"
proof (cases "remove_book library w")
  case (Pair r w')
  assume b: "list_all is_book library"
  show ?thesis
  proof (cases r)
    case (Inl e)
    with Pair b show ?thesis by (simp add: library_after_def)
  next
    case (Inr library')
    with Pair remove_book_result[of library w library' w']
    have "subseq library' library" by (auto dest: list_remove_subseq)
    then have "set library' \<subseteq> set library" by (auto elim: list_emb_set)
    with Pair Inr b show ?thesis by (auto simp: library_after_def list_all_iff)
  qed
qed
text \<open>
  C2, as the code has it. When every record of the catalog is a book record (the five
  fields, with text, text, integer, text, boolean), every record is one after
  \<open>add_book\<close> and after \<open>remove_book\<close>, whatever the input: \<open>add_book\<close> appends a
  record built from five validated entries, \<open>remove_book\<close> only deletes. \<open>load_library\<close>
  checks nothing: where the store can be read and decoded, the catalog is the stored
  document as it is.
\<close>

theorem catalog_records_kept:
  "(list_all is_book library \<longrightarrow>
      list_all is_book (library_after library (fst (add_book library w))) \<and>
      list_all is_book (library_after library (fst (remove_book library w)))) \<and>
   (contents fs = Some text \<and> read_error fs = None \<and> json_loads text = Inr v \<longrightarrow>
      load_library fs w = (Inr v, w))"
  by (auto simp: add_book_keeps_books remove_book_keeps_books load_library_def)

text \<open>
  C2 as it is stated fails at the startup load. A store that holds the document
  \<^verbatim>\<open>[{"title": "Dune"}]\<close> loads without an error message into a catalog whose one
  record has a title and nothing else.
\<close>

theorem load_library_partial_record:
  "load_library
     \<lparr>contents = Some (''[{'' @ [CHR 0x22] @ ''title'' @ [CHR 0x22] @ '': '' @
                        [CHR 0x22] @ ''Dune'' @ [CHR 0x22] @ ''}]''),
      read_error = None, write_error = None\<rparr>
     \<lparr>stdin = [], stdout = []\<rparr> =
   (Inr (PList [PDict [(''title'', PStr ''Dune'')]]), \<lparr>stdin = [], stdout = []\<rparr>) \<and>
   \<not> list_all is_book [PDict [(''title'', PStr ''Dune'')]]"
  by code_simp

theorem catalog_records_kept_witness:
  "list_all is_book
     (library_after [book ''Dune'' ''Frank Herbert'' 1965 ''Science Fiction'' True]
        (fst (add_book [book ''Dune'' ''Frank Herbert'' 1965 ''Science Fiction'' True]
           \<lparr>stdin = [''Emma'', ''Jane Austen'', ''1815'', ''Novel'', ''no''], stdout = []\<rparr>))) \<and>
   list_all is_book
     (library_after [book ''Dune'' ''Frank Herbert'' 1965 ''Science Fiction'' True]
        (fst (remove_book [book ''Dune'' ''Frank Herbert'' 1965 ''Science Fiction'' True]
           \<lparr>stdin = [''Emma'', ''Jane Austen'', ''1815'', ''Novel'', ''no''], stdout = []\<rparr>))) \<and>
   load_library \<lparr>contents = Some ''[]'', read_error = None, write_error = None\<rparr>
     \<lparr>stdin = [''Emma'', ''Jane Austen'', ''1815'', ''Novel'', ''no''], stdout = []\<rparr> =
   (Inr (PList []),
    \<lparr>stdin = [''Emma'', ''Jane Austen'', ''1815'', ''Novel'', ''no''], stdout = []\<rparr>)"
proof -
  let ?lib = "[book ''Dune'' ''Frank Herbert'' 1965 ''Science Fiction'' True]"
  let ?w = "\<lparr>stdin = [''Emma'', ''Jane Austen'', ''1815'', ''Novel'', ''no''], stdout = []\<rparr>"
  let ?fs = "\<lparr>contents = Some ''[]'', read_error = None, write_error = None\<rparr>"
  have h1: "list_all is_book ?lib" by code_simp
  have h2: "contents ?fs = Some ''[]'' \<and> read_error ?fs = None \<and> json_loads ''[]'' = Inr (PList [])"
    by code_simp
  from catalog_records_kept[of ?lib ?w ?fs "''[]''" "PList []"] h1 h2
  show ?thesis by blast
qed


lemma has_field_member:
  assumes "has_field ty k (PDict d)"
  shows "\<exists>x. (k, x) \<in> set d \<and> map_of d k = Some x \<and> ty x"
  using assms
  by (auto simp: has_field_def subscript_def split: option.splits dest: map_of_SomeD)

lemma is_book_wf:
  assumes "is_book b"
  shows "wf b"
proof -
  from assms obtain d where b: "b = PDict d" and len: "length d = 5"
    by (auto simp: is_book_def split: pyval.splits)
  let ?keys = "{''title'', ''author'', ''year'', ''genre'', ''read''}"
  have h: "has_field is_str ''title'' (PDict d)" "has_field is_str ''author'' (PDict d)"
    "has_field is_int ''year'' (PDict d)" "has_field is_str ''genre'' (PDict d)"
    "has_field is_bool ''read'' (PDict d)"
    using assms b by (simp_all add: is_book_def)
  obtain t where ft: "map_of d ''title'' = Some t" "is_str t"
    using has_field_member[OF h(1)] by blast
  obtain a where fa: "map_of d ''author'' = Some a" "is_str a"
    using has_field_member[OF h(2)] by blast
  obtain y where fy: "map_of d ''year'' = Some y" "is_int y"
    using has_field_member[OF h(3)] by blast
  obtain g where fg: "map_of d ''genre'' = Some g" "is_str g"
    using has_field_member[OF h(4)] by blast
  obtain r where fr: "map_of d ''read'' = Some r" "is_bool r"
    using has_field_member[OF h(5)] by blast
  note f = ft fa fy fg fr
  have sub: "?keys \<subseteq> set (map fst d)"
    using f by (auto dest!: map_of_SomeD intro: rev_image_eqI)
  have "card ?keys = 5" by simp
  then have "5 \<le> card (set (map fst d))"
    using card_mono[OF _ sub] by simp
  moreover have "card (set (map fst d)) \<le> length (map fst d)" by (rule card_length)
  ultimately have c: "card (set (map fst d)) = length (map fst d)" using len by simp
  then have dist: "distinct (map fst d)" by (rule card_distinct)
  have "set (map fst d) = ?keys"
    using sub c len by (intro card_seteq[symmetric]) simp_all
  then have keys: "\<And>k v. (k, v) \<in> set d \<Longrightarrow> k \<in> ?keys"
    by (metis (no_types, lifting) fst_conv image_eqI list.set_map)
  have "wf v" if "(k, v) \<in> set d" for k v
  proof -
    have m: "map_of d k = Some v" using dist that by simp
    from keys[OF that] m f show ?thesis
      by (auto elim!: is_str.elims is_int.elims is_bool.elims)
  qed
  with dist b show ?thesis by (auto simp: list_all_iff)
qed

text \<open>
  C3. For every catalog of book records and every store that accepts the write and the
  read, \<open>load_library\<close> on the store that \<open>save_library\<close> leaves returns the catalog:
  the same records with the same fields in the same order, and no message.
\<close>

theorem save_then_load:
  assumes "list_all is_book library" and "write_error fs = None" and "read_error fs = None"
  shows "load_library (fst (save_library library fs w)) w' = (Inr (PList library), w')"
proof -
  have "wf (PList library)" using assms(1) by (simp add: list_all_iff is_book_wf)
  then have "json_loads (json_dumps (PList library)) = Inr (PList library)"
    by (rule json_round_trip)
  then show ?thesis using assms(2,3)
    by (simp add: save_library_def load_library_def)
qed

theorem save_then_load_witness:
  "load_library
     (fst (save_library
        [book ''Dune'' ''Frank Herbert'' 1965 ''Science Fiction'' True,
         book ''Emma'' ''Jane Austen'' 1815 ''Novel'' False]
        \<lparr>contents = None, read_error = None, write_error = None\<rparr>
        \<lparr>stdin = [], stdout = []\<rparr>))
     \<lparr>stdin = [], stdout = []\<rparr> =
   (Inr (PList [book ''Dune'' ''Frank Herbert'' 1965 ''Science Fiction'' True,
                book ''Emma'' ''Jane Austen'' 1815 ''Novel'' False]),
    \<lparr>stdin = [], stdout = []\<rparr>)"
proof -
  let ?lib = "[book ''Dune'' ''Frank Herbert'' 1965 ''Science Fiction'' True,
         book ''Emma'' ''Jane Austen'' 1815 ''Novel'' False]"
  let ?fs = "\<lparr>contents = None, read_error = None, write_error = None\<rparr>"
  have h1: "list_all is_book ?lib" by code_simp
  have h2: "write_error ?fs = None" by simp
  have h3: "read_error ?fs = None" by simp
  show ?thesis by (rule save_then_load[OF h1 h2 h3])
qed

text \<open>
  Where the store refuses the write, \<open>save_library\<close> prints the error and the store
  stays as it was; here it had no file, and the load gives the empty list.
\<close>

lemma save_fails_example:
  "load_library
     (fst (save_library [book ''Dune'' ''Frank Herbert'' 1965 ''Science Fiction'' True]
        \<lparr>contents = None, read_error = None, write_error = Some OSError\<rparr>
        \<lparr>stdin = [], stdout = []\<rparr>))
     \<lparr>stdin = [], stdout = []\<rparr> = (Inr (PList []), \<lparr>stdin = [], stdout = []\<rparr>)"
  by code_simp

end
